theory Spec2Isabelle
  imports
    Main
    "HOL-Library.Word"
    "HOL-Library.Multiset"
    "HOL-Library.Sublist"
    "HOL-Library.Signed_Division"
begin

section \<open>The C library functions used by \<open>benchmark.c\<close>\<close>

text \<open>
  A C string is modelled by the list of its characters before the terminating NUL.
  \<open>int\<close> is a \<open>32 word\<close>, \<open>int64_t\<close> (and \<open>long\<close>, \<open>long long\<close>) a \<open>64 word\<close>;
  signed arithmetic wraps around (two's complement), signed comparison is \<open><s\<close>.
  A \<open>uint64_t\<close> array length is the \<open>nat\<close> length of the modelled list.
\<close>

definition isspace_c :: "char \<Rightarrow> bool" where
  "isspace_c c =
     (c = CHR '' '' \<or> c = CHR 0x09 \<or> c = CHR 0x0A \<or> c = CHR 0x0B \<or> c = CHR 0x0C \<or> c = CHR 0x0D)"

definition isdigit_c :: "char \<Rightarrow> bool" where
  "isdigit_c c = (48 \<le> (of_char c :: nat) \<and> (of_char c :: nat) \<le> 57)"

definition digit_val :: "char \<Rightarrow> int" where
  "digit_val c = int (of_char c) - 48"

definition decimal :: "string \<Rightarrow> int" where
  \<comment> \<open>the value of a run of decimal digits, most significant first\<close>
  "decimal ds = fold (\<lambda>c acc. acc * 10 + digit_val c) ds 0"

definition clamp_ll :: "int \<Rightarrow> int" where
  \<comment> \<open>\<open>strtoll\<close> answers \<open>LLONG_MIN\<close> or \<open>LLONG_MAX\<close> when the value is out of range\<close>
  "clamp_ll v =
     (if v < - (2 ^ 63) then - (2 ^ 63) else if 2 ^ 63 - 1 < v then 2 ^ 63 - 1 else v)"

definition strtoll_c :: "string \<Rightarrow> 64 word" where
  \<comment> \<open>\<open>strtoll(s, NULL, 10)\<close>: white space, an optional sign, then the longest run of
      digits; 0 when there is no digit\<close>
  "strtoll_c s =
     (let s1 = dropWhile isspace_c s;
          neg = (s1 \<noteq> [] \<and> hd s1 = CHR ''-'');
          s2 = (if s1 \<noteq> [] \<and> (hd s1 = CHR ''-'' \<or> hd s1 = CHR ''+'') then tl s1 else s1);
          v = decimal (takeWhile isdigit_c s2)
      in word_of_int (clamp_ll (if neg then - v else v)))"

definition atoi_c :: "string \<Rightarrow> 32 word" where
  \<comment> \<open>\<open>atoi(s)\<close> is \<open>(int) strtol(s, NULL, 10)\<close>, with a 64-bit \<open>long\<close>\<close>
  "atoi_c s = ucast (strtoll_c s)"

fun strstr_c :: "string \<Rightarrow> string \<Rightarrow> string option" where
  \<comment> \<open>the text from the first occurrence of \<open>needle\<close> on, \<open>None\<close> for \<open>NULL\<close>\<close>
  "strstr_c [] needle = (if needle = [] then Some [] else None)"
| "strstr_c (c # cs) needle =
     (if prefix needle (c # cs) then Some (c # cs) else strstr_c cs needle)"

fun strrchr_c :: "string \<Rightarrow> char \<Rightarrow> string option" where
  \<comment> \<open>the text from the last occurrence of \<open>c\<close> on, \<open>None\<close> for \<open>NULL\<close>\<close>
  "strrchr_c [] c = None"
| "strrchr_c (x # xs) c =
     (case strrchr_c xs c of
        Some r \<Rightarrow> Some r
      | None \<Rightarrow> if x = c then Some (x # xs) else None)"

definition snprintf_256 :: "string \<Rightarrow> string" where
  \<comment> \<open>\<open>snprintf(buf, sizeof buf, ...)\<close> into a \<open>char[256]\<close> keeps at most 255
      characters of the formatted text\<close>
  "snprintf_256 out = take 255 out"

definition digit_char :: "nat \<Rightarrow> char" where
  "digit_char n = ''0123456789'' ! n"

fun show_nat :: "nat \<Rightarrow> string" where
  "show_nat n =
     (if n < 10 then [digit_char n] else show_nat (n div 10) @ [digit_char (n mod 10)])"

declare show_nat.simps [simp del]

definition show_int :: "int \<Rightarrow> string" where
  \<comment> \<open>what \<open>%d\<close> and \<open>%ld\<close> print\<close>
  "show_int i = (if i < 0 then CHR ''-'' # show_nat (nat (- i)) else show_nat (nat i))"

definition sdiv64 :: "64 word \<Rightarrow> 64 word \<Rightarrow> 64 word" where
  \<comment> \<open>\<open>/\<close> on \<open>int64_t\<close>: the quotient is truncated towards zero\<close>
  "sdiv64 a b = word_of_int (sint a sdiv sint b)"

definition INT_MAX :: "32 word" where
  "INT_MAX = 2147483647"

section \<open>Record decoding\<close>

definition json_get_int64 :: "string \<Rightarrow> string \<Rightarrow> 64 word" where
  "json_get_int64 json key =
     (let search = snprintf_256 ([CHR 0x22] @ key @ [CHR 0x22, CHR '':''])
      in case strstr_c json search of
           None \<Rightarrow> 0
         | Some pos \<Rightarrow>
             strtoll_c (dropWhile (\<lambda>c. c = CHR '' '') (drop (length search) pos)))"

definition json_get_int :: "string \<Rightarrow> string \<Rightarrow> 32 word" where
  \<comment> \<open>the cast \<open>(int)\<close> keeps the low 32 bits\<close>
  "json_get_int json key = ucast (json_get_int64 json key)"

section \<open>The store\<close>

text \<open>
  The store is reached through libirmin, which is not part of the program. A store
  state is what the two access functions of the program see of it:
  \<^item> \<open>contents s p\<close> is the string that \<open>get_content\<close> returns for the path string \<open>p\<close>,
    \<open>None\<close> when the path is rejected, has no contents or the contents have no string;
  \<^item> \<open>children s p\<close> is the array that \<open>irmin_list\<close> returns for \<open>p\<close>, \<open>None\<close> when
    \<open>list_path\<close> returns \<open>NULL\<close>. An element is \<open>Some q\<close> with \<open>q\<close> the path string of the
    child, or \<open>None\<close> when \<open>irmin_path_array_get\<close> or \<open>path_to_string\<close> returns \<open>NULL\<close>
    for it.
\<close>

record store =
  contents :: "string \<Rightarrow> string option"
  children :: "string \<Rightarrow> string option list option"

definition get_content :: "store \<Rightarrow> string \<Rightarrow> string option" where
  "get_content s path_str = contents s path_str"

definition list_path :: "store \<Rightarrow> string \<Rightarrow> string option list option" where
  "list_path s path_str = children s path_str"

definition path_array_length :: "string option list \<Rightarrow> 64 word" where
  \<comment> \<open>\<open>(int64_t) irmin_path_array_length(repo, arr)\<close>\<close>
  "path_array_length arr = of_nat (length arr)"

section \<open>The last block height\<close>

definition block_height_step :: "string option \<Rightarrow> 32 word \<Rightarrow> 32 word" where
  \<comment> \<open>one round of the loop of \<open>find_last_block_height\<close>\<close>
  "block_height_step e max_height =
     (case e of
        None \<Rightarrow> max_height
      | Some pstr \<Rightarrow>
          (case strrchr_c pstr (CHR ''/'') of
             None \<Rightarrow> max_height
           | Some slash \<Rightarrow>
               (let height = atoi_c (tl slash)
                in if max_height <s height then height else max_height)))"

definition find_last_block_height :: "store \<Rightarrow> 32 word" where
  "find_last_block_height s =
     (case list_path s ''block'' of
        None \<Rightarrow> - 1
      | Some blocks \<Rightarrow> fold block_height_step blocks (- 1))"

section \<open>Resolving index records\<close>

text \<open>
  The traversals read the identifiers of a reference record the same way at every
  place: the contents at the path of the reference are looked up, a reference
  without contents is skipped, and the fields are decoded with \<open>json_get_int\<close>.
\<close>

definition resolve_tx_id :: "store \<Rightarrow> string \<Rightarrow> 32 word option" where
  "resolve_tx_id s tx_path_str =
     (case get_content s tx_path_str of
        None \<Rightarrow> None
      | Some tx_ref \<Rightarrow> Some (json_get_int tx_ref ''tx_id''))"

definition resolve_output_ref :: "store \<Rightarrow> string \<Rightarrow> (32 word \<times> 32 word) option" where
  "resolve_output_ref s out_path_str =
     (case get_content s out_path_str of
        None \<Rightarrow> None
      | Some out_ref \<Rightarrow> Some (json_get_int out_ref ''tx_id'', json_get_int out_ref ''vout''))"

definition block_txs_path :: "32 word \<Rightarrow> string" where
  "block_txs_path height = snprintf_256 (''index/block_txs/'' @ show_int (sint height))"

definition tx_inputs_path :: "32 word \<Rightarrow> string" where
  "tx_inputs_path tx_id = snprintf_256 (''index/tx_inputs/'' @ show_int (sint tx_id))"

definition tx_outputs_path :: "32 word \<Rightarrow> string" where
  "tx_outputs_path tx_id = snprintf_256 (''index/tx_outputs/'' @ show_int (sint tx_id))"

definition output_path :: "32 word \<Rightarrow> 32 word \<Rightarrow> string" where
  "output_path out_tx_id out_vout =
     snprintf_256 (''output/'' @ show_int (sint out_tx_id) @ ''/'' @ show_int (sint out_vout))"

section \<open>The loop over the block heights\<close>

text \<open>
  \<open>for (int height = 0; height <= last_height; height++) body\<close>, entered at
  \<open>height = h\<close> with the accumulator \<open>acc\<close>. The counter is an \<open>int\<close>: when
  \<open>last_height\<close> is \<open>INT_MAX\<close> the condition holds for every value of the counter and
  the increment overflows (undefined in ISO C; with wrap-around the counter goes
  on from \<open>INT_MIN\<close>), so the loop has no exit. Not returning is the value \<open>None\<close>.
\<close>

partial_function (option) for_height ::
  "(32 word \<Rightarrow> 64 word \<Rightarrow> 64 word) \<Rightarrow> 32 word \<Rightarrow> 32 word \<Rightarrow> 64 word \<Rightarrow> 64 word option" where
  "for_height body last_height h acc =
     (if h \<le>s last_height then for_height body last_height (h + 1) (body h acc)
      else Some acc)"

declare for_height.simps [code]

section \<open>The queries\<close>

definition query_block_count :: "store \<Rightarrow> 64 word" where
  "query_block_count s =
     (case list_path s ''block'' of None \<Rightarrow> 0 | Some blocks \<Rightarrow> path_array_length blocks)"

definition query_tx_count :: "store \<Rightarrow> 64 word" where
  "query_tx_count s =
     (case list_path s ''tx'' of None \<Rightarrow> 0 | Some txs \<Rightarrow> path_array_length txs)"

definition query_address_count :: "store \<Rightarrow> 64 word" where
  "query_address_count s =
     (case list_path s ''address'' of None \<Rightarrow> 0 | Some addrs \<Rightarrow> path_array_length addrs)"

definition input_count_ref :: "store \<Rightarrow> string option \<Rightarrow> 64 word \<Rightarrow> 64 word" where
  "input_count_ref s e cnt =
     (case e of
        None \<Rightarrow> cnt
      | Some tx_path_str \<Rightarrow>
          (case resolve_tx_id s tx_path_str of
             None \<Rightarrow> cnt
           | Some tx_id \<Rightarrow>
               (case list_path s (tx_inputs_path tx_id) of
                  None \<Rightarrow> cnt
                | Some inputs \<Rightarrow> cnt + path_array_length inputs)))"

definition input_count_block :: "store \<Rightarrow> 32 word \<Rightarrow> 64 word \<Rightarrow> 64 word" where
  "input_count_block s height cnt =
     (case list_path s (block_txs_path height) of
        None \<Rightarrow> cnt
      | Some tx_refs \<Rightarrow> fold (input_count_ref s) tx_refs cnt)"

definition query_input_count :: "store \<Rightarrow> 64 word option" where
  "query_input_count s =
     (let last_height = find_last_block_height s
      in if last_height <s 0 then Some 0
         else for_height (input_count_block s) last_height 0 0)"

definition output_count_ref :: "store \<Rightarrow> string option \<Rightarrow> 64 word \<Rightarrow> 64 word" where
  "output_count_ref s e cnt =
     (case e of
        None \<Rightarrow> cnt
      | Some tx_path_str \<Rightarrow>
          (case resolve_tx_id s tx_path_str of
             None \<Rightarrow> cnt
           | Some tx_id \<Rightarrow>
               (case list_path s (tx_outputs_path tx_id) of
                  None \<Rightarrow> cnt
                | Some outputs \<Rightarrow> cnt + path_array_length outputs)))"

definition output_count_block :: "store \<Rightarrow> 32 word \<Rightarrow> 64 word \<Rightarrow> 64 word" where
  "output_count_block s height cnt =
     (case list_path s (block_txs_path height) of
        None \<Rightarrow> cnt
      | Some tx_refs \<Rightarrow> fold (output_count_ref s) tx_refs cnt)"

definition query_output_count :: "store \<Rightarrow> 64 word option" where
  "query_output_count s =
     (let last_height = find_last_block_height s
      in if last_height <s 0 then Some 0
         else for_height (output_count_block s) last_height 0 0)"

definition locktime_step :: "store \<Rightarrow> string option \<Rightarrow> 64 word \<Rightarrow> 64 word" where
  "locktime_step s e cnt =
     (case e of
        None \<Rightarrow> cnt
      | Some tx_path_str \<Rightarrow>
          (case get_content s tx_path_str of
             None \<Rightarrow> cnt
           | Some tx_json \<Rightarrow>
               (let locktime = json_get_int64 tx_json ''locktime''
                in if 0 <s locktime then cnt + 1 else cnt)))"

definition query_tx_locktime_gt_0 :: "store \<Rightarrow> 64 word" where
  "query_tx_locktime_gt_0 s =
     (case list_path s ''tx'' of None \<Rightarrow> 0 | Some txs \<Rightarrow> fold (locktime_step s) txs 0)"

definition version_step :: "store \<Rightarrow> string option \<Rightarrow> 64 word \<Rightarrow> 64 word" where
  "version_step s e cnt =
     (case e of
        None \<Rightarrow> cnt
      | Some tx_path_str \<Rightarrow>
          (case get_content s tx_path_str of
             None \<Rightarrow> cnt
           | Some tx_json \<Rightarrow>
               (let version = json_get_int tx_json ''version''
                in if 1 <s version then cnt + 1 else cnt)))"

definition query_tx_version_gt_1 :: "store \<Rightarrow> 64 word" where
  "query_tx_version_gt_1 s =
     (case list_path s ''tx'' of None \<Rightarrow> 0 | Some txs \<Rightarrow> fold (version_step s) txs 0)"

definition max_output_out :: "store \<Rightarrow> string option \<Rightarrow> 64 word \<Rightarrow> 64 word" where
  "max_output_out s e max_val =
     (case e of
        None \<Rightarrow> max_val
      | Some out_path_str \<Rightarrow>
          (case resolve_output_ref s out_path_str of
             None \<Rightarrow> max_val
           | Some (out_tx_id, out_vout) \<Rightarrow>
               (case get_content s (output_path out_tx_id out_vout) of
                  None \<Rightarrow> max_val
                | Some output_json \<Rightarrow>
                    (let v = json_get_int64 output_json ''value''
                     in if max_val <s v then v else max_val))))"

definition max_output_ref :: "store \<Rightarrow> string option \<Rightarrow> 64 word \<Rightarrow> 64 word" where
  "max_output_ref s e max_val =
     (case e of
        None \<Rightarrow> max_val
      | Some tx_path_str \<Rightarrow>
          (case resolve_tx_id s tx_path_str of
             None \<Rightarrow> max_val
           | Some tx_id \<Rightarrow>
               (case list_path s (tx_outputs_path tx_id) of
                  None \<Rightarrow> max_val
                | Some outputs \<Rightarrow> fold (max_output_out s) outputs max_val)))"

definition max_output_block :: "store \<Rightarrow> 32 word \<Rightarrow> 64 word \<Rightarrow> 64 word" where
  "max_output_block s height max_val =
     (case list_path s (block_txs_path height) of
        None \<Rightarrow> max_val
      | Some tx_refs \<Rightarrow> fold (max_output_ref s) tx_refs max_val)"

definition query_max_output_value :: "store \<Rightarrow> 64 word option" where
  "query_max_output_value s =
     (let last_height = find_last_block_height s
      in if last_height <s 0 then Some 0
         else for_height (max_output_block s) last_height 0 0)"

definition fee_max_step :: "store \<Rightarrow> string option \<Rightarrow> 64 word \<Rightarrow> 64 word" where
  "fee_max_step s e max_fee =
     (case e of
        None \<Rightarrow> max_fee
      | Some tx_path_str \<Rightarrow>
          (case get_content s tx_path_str of
             None \<Rightarrow> max_fee
           | Some tx_json \<Rightarrow>
               (let fee = json_get_int64 tx_json ''fee''
                in if max_fee <s fee then fee else max_fee)))"

definition query_calculate_fee :: "store \<Rightarrow> 64 word" where
  "query_calculate_fee s =
     (case list_path s ''tx'' of None \<Rightarrow> 0 | Some txs \<Rightarrow> fold (fee_max_step s) txs 0)"

definition total_output_out :: "store \<Rightarrow> string option \<Rightarrow> 64 word \<Rightarrow> 64 word" where
  "total_output_out s e tot =
     (case e of
        None \<Rightarrow> tot
      | Some out_path_str \<Rightarrow>
          (case resolve_output_ref s out_path_str of
             None \<Rightarrow> tot
           | Some (out_tx_id, out_vout) \<Rightarrow>
               (case get_content s (output_path out_tx_id out_vout) of
                  None \<Rightarrow> tot
                | Some output_json \<Rightarrow> tot + json_get_int64 output_json ''value'')))"

definition total_output_ref :: "store \<Rightarrow> string option \<Rightarrow> 64 word \<Rightarrow> 64 word" where
  "total_output_ref s e tot =
     (case e of
        None \<Rightarrow> tot
      | Some tx_path_str \<Rightarrow>
          (case resolve_tx_id s tx_path_str of
             None \<Rightarrow> tot
           | Some tx_id \<Rightarrow>
               (case list_path s (tx_outputs_path tx_id) of
                  None \<Rightarrow> tot
                | Some outputs \<Rightarrow> fold (total_output_out s) outputs tot)))"

definition total_output_block :: "store \<Rightarrow> 32 word \<Rightarrow> 64 word \<Rightarrow> 64 word" where
  "total_output_block s height tot =
     (case list_path s (block_txs_path height) of
        None \<Rightarrow> tot
      | Some tx_refs \<Rightarrow> fold (total_output_ref s) tx_refs tot)"

definition query_total_output_value :: "store \<Rightarrow> 64 word option" where
  "query_total_output_value s =
     (let last_height = find_last_block_height s
      in if last_height <s 0 then Some 0
         else for_height (total_output_block s) last_height 0 0)"

definition fee_sum_step :: "store \<Rightarrow> string option \<Rightarrow> 64 word \<Rightarrow> 64 word" where
  "fee_sum_step s e tot =
     (case e of
        None \<Rightarrow> tot
      | Some tx_path_str \<Rightarrow>
          (case get_content s tx_path_str of
             None \<Rightarrow> tot
           | Some tx_json \<Rightarrow> tot + json_get_int64 tx_json ''fee''))"

definition query_total_fees :: "store \<Rightarrow> 64 word" where
  "query_total_fees s =
     (case list_path s ''tx'' of None \<Rightarrow> 0 | Some txs \<Rightarrow> fold (fee_sum_step s) txs 0)"

definition query_avg_tx_per_block :: "store \<Rightarrow> 64 word" where
  "query_avg_tx_per_block s =
     (let block_count = query_block_count s
      in if block_count = 0 then 0
         else (let tx_count = query_tx_count s in sdiv64 (tx_count * 1000) block_count))"

definition max_tx_block :: "store \<Rightarrow> 32 word \<Rightarrow> 64 word \<Rightarrow> 64 word" where
  "max_tx_block s height max_tx =
     (case list_path s (block_txs_path height) of
        None \<Rightarrow> max_tx
      | Some tx_refs \<Rightarrow>
          (let cnt = path_array_length tx_refs
           in if max_tx <s cnt then cnt else max_tx))"

definition query_max_tx_per_block :: "store \<Rightarrow> 64 word option" where
  "query_max_tx_per_block s =
     (let last_height = find_last_block_height s
      in if last_height <s 0 then Some 0
         else for_height (max_tx_block s) last_height 0 0)"

definition spent_step :: "store \<Rightarrow> string option \<Rightarrow> 64 word \<Rightarrow> 64 word" where
  "spent_step s e cnt =
     (case e of
        None \<Rightarrow> cnt
      | Some tx_path_str \<Rightarrow>
          (case list_path s tx_path_str of
             None \<Rightarrow> cnt
           | Some vouts \<Rightarrow> cnt + path_array_length vouts))"

definition query_spent_outputs :: "store \<Rightarrow> 64 word" where
  "query_spent_outputs s =
     (case list_path s ''index/spent_by'' of
        None \<Rightarrow> 0
      | Some spent \<Rightarrow> fold (spent_step s) spent 0)"

definition query_unspent_outputs :: "store \<Rightarrow> 64 word option" where
  "query_unspent_outputs s =
     (case query_output_count s of
        None \<Rightarrow> None
      | Some total_outputs \<Rightarrow> (let spent = query_spent_outputs s in Some (total_outputs - spent)))"

definition high_value_step :: "store \<Rightarrow> string option \<Rightarrow> 64 word \<Rightarrow> 64 word" where
  "high_value_step s e cnt =
     (case e of
        None \<Rightarrow> cnt
      | Some tx_path_str \<Rightarrow>
          (case get_content s tx_path_str of
             None \<Rightarrow> cnt
           | Some tx_json \<Rightarrow>
               (let fee = json_get_int64 tx_json ''fee''
                in if 1000000000 <s fee then cnt + 1 else cnt)))"

definition query_high_value_tx :: "store \<Rightarrow> 64 word" where
  "query_high_value_tx s =
     (case list_path s ''tx'' of None \<Rightarrow> 0 | Some txs \<Rightarrow> fold (high_value_step s) txs 0)"

definition multi_input_step :: "store \<Rightarrow> string option \<Rightarrow> 64 word \<Rightarrow> 64 word" where
  "multi_input_step s e cnt =
     (case e of
        None \<Rightarrow> cnt
      | Some tx_path_str \<Rightarrow>
          (case get_content s tx_path_str of
             None \<Rightarrow> cnt
           | Some tx_json \<Rightarrow>
               (let tx_id = json_get_int tx_json ''tx_id''
                in case list_path s (tx_inputs_path tx_id) of
                     None \<Rightarrow> cnt
                   | Some inputs \<Rightarrow> if 10 < length inputs then cnt + 1 else cnt)))"

definition query_multi_input_tx :: "store \<Rightarrow> 64 word" where
  "query_multi_input_tx s =
     (case list_path s ''tx'' of None \<Rightarrow> 0 | Some txs \<Rightarrow> fold (multi_input_step s) txs 0)"

section \<open>The benchmark runner\<close>

text \<open>
  A query that returns is \<open>Some\<close> of its result. The catalog is the array \<open>benchmarks\<close>
  up to its \<open>NULL\<close> entry.
\<close>

definition benchmarks :: "(string \<times> (store \<Rightarrow> 64 word option)) list" where
  "benchmarks =
     [(''Block count'', \<lambda>s. Some (query_block_count s)),
      (''Tx count'', \<lambda>s. Some (query_tx_count s)),
      (''Input count'', query_input_count),
      (''Output count'', query_output_count),
      (''Address count'', \<lambda>s. Some (query_address_count s)),
      (''Tx locktime > 0'', \<lambda>s. Some (query_tx_locktime_gt_0 s)),
      (''Max output value'', query_max_output_value),
      (''Calculate fee'', \<lambda>s. Some (query_calculate_fee s)),
      (''Total output value'', query_total_output_value),
      (''Total fees'', \<lambda>s. Some (query_total_fees s)),
      (''Tx version > 1'', \<lambda>s. Some (query_tx_version_gt_1 s)),
      (''Avg tx per block'', \<lambda>s. Some (query_avg_tx_per_block s)),
      (''Max tx per block'', query_max_tx_per_block),
      (''Spent outputs'', \<lambda>s. Some (query_spent_outputs s)),
      (''Unspent outputs'', query_unspent_outputs),
      (''High value tx'', \<lambda>s. Some (query_high_value_tx s)),
      (''Multi-input tx'', \<lambda>s. Some (query_multi_input_tx s))]"

definition result_line :: "string \<Rightarrow> string \<Rightarrow> 64 word \<Rightarrow> string" where
  \<comment> \<open>\<open>printf("%s,%.3f,%ld\n", name, elapsed, (long) result)\<close> without the newline;
      \<open>elapsed\<close> is the text that \<open>%.3f\<close> gives for the measured time\<close>
  "result_line name elapsed result = name @ '','' @ elapsed @ '','' @ show_int (sint result)"

fun run_benchmarks ::
  "store \<Rightarrow> (nat \<Rightarrow> string) \<Rightarrow> nat \<Rightarrow> (string \<times> (store \<Rightarrow> 64 word option)) list
     \<Rightarrow> string list \<times> bool" where
  "run_benchmarks s elapsed i [] = ([], True)"
| "run_benchmarks s elapsed i ((name, query) # bs) =
     (case query s of
        None \<Rightarrow> ([], False)
      | Some result \<Rightarrow>
          (let (ls, finished) = run_benchmarks s elapsed (Suc i) bs
           in (result_line name (elapsed i) result # ls, finished)))"

definition main_stdout :: "store \<Rightarrow> (nat \<Rightarrow> string) \<Rightarrow> string list \<times> int option" where
  \<comment> \<open>\<open>main\<close> once the store is open: the lines written to standard output, and the
      exit code when the program ends. \<open>elapsed i\<close> is the time text of benchmark \<open>i\<close>.\<close>
  "main_stdout s elapsed =
     (let (ls, finished) = run_benchmarks s elapsed 0 benchmarks
      in (''Query,Time_ms,Result'' # ls, if finished then Some 0 else None))"

section \<open>Notions used to state the properties\<close>

definition json_key_literal :: "string \<Rightarrow> string" where
  \<comment> \<open>the text \<open>"key":\<close> that \<open>json_get_int64\<close> looks for\<close>
  "json_key_literal key = [CHR 0x22] @ key @ [CHR 0x22, CHR '':'']"

definition sign_factor :: "string \<Rightarrow> int" where
  "sign_factor sg = (if sg = ''-'' then - 1 else 1)"

definition number_after_key ::
  "string \<Rightarrow> string \<Rightarrow> string \<Rightarrow> string \<Rightarrow> string \<Rightarrow> string \<Rightarrow> string \<Rightarrow> bool" where
  \<comment> \<open>the record is \<open>pre\<close>, the first occurrence of \<open>"key":\<close>, white space \<open>ws\<close>, an
      optional sign \<open>sg\<close>, the longest run of digits \<open>ds\<close>, and \<open>rest\<close>\<close>
  "number_after_key key json pre ws sg ds rest \<longleftrightarrow>
     json = pre @ json_key_literal key @ ws @ sg @ ds @ rest \<and>
     (\<forall>pre' post'. json = pre' @ json_key_literal key @ post' \<longrightarrow> length pre \<le> length pre') \<and>
     (\<forall>c\<in>set ws. isspace_c c) \<and>
     (sg = [] \<or> sg = ''-'' \<or> sg = ''+'') \<and>
     (\<forall>d\<in>set ds. isdigit_c d) \<and>
     (rest = [] \<or> \<not> isdigit_c (hd rest)) \<and>
     (sg = [] \<and> ds = [] \<longrightarrow>
        rest = [] \<or> (\<not> isspace_c (hd rest) \<and> hd rest \<noteq> CHR ''-'' \<and> hd rest \<noteq> CHR ''+''))"

definition smax :: "'a::len word \<Rightarrow> 'a word \<Rightarrow> 'a word" where
  \<comment> \<open>the update \<open>if (v > max) max = v\<close> of a running signed maximum\<close>
  "smax a v = (if a <s v then v else a)"

definition block_suffix :: "string option \<Rightarrow> 32 word option" where
  \<comment> \<open>the integer read after the last \<open>/\<close> of a listing entry; none for an entry
      that cannot be read or has no \<open>/\<close>\<close>
  "block_suffix e =
     (case e of
        None \<Rightarrow> None
      | Some pstr \<Rightarrow>
          (case strrchr_c pstr (CHR ''/'') of
             None \<Rightarrow> None
           | Some slash \<Rightarrow> Some (atoi_c (tl slash))))"

definition block_heights :: "store \<Rightarrow> 32 word list" where
  "block_heights s =
     (case list_path s ''block'' of
        None \<Rightarrow> []
      | Some blocks \<Rightarrow> List.map_filter block_suffix blocks)"

definition fee_of :: "store \<Rightarrow> string option \<Rightarrow> 64 word option" where
  \<comment> \<open>the decoded fee of a transaction of the listing that has contents\<close>
  "fee_of s e =
     (case e of
        None \<Rightarrow> None
      | Some tx_path_str \<Rightarrow>
          (case get_content s tx_path_str of
             None \<Rightarrow> None
           | Some tx_json \<Rightarrow> Some (json_get_int64 tx_json ''fee'')))"

definition tx_fees :: "store \<Rightarrow> 64 word list" where
  "tx_fees s =
     (case list_path s ''tx'' of
        None \<Rightarrow> []
      | Some txs \<Rightarrow> List.map_filter (fee_of s) txs)"

definition tx_listing :: "store \<Rightarrow> string option list" where
  "tx_listing s = (case list_path s ''tx'' of None \<Rightarrow> [] | Some txs \<Rightarrow> txs)"

definition claimed_many_inputs :: "store \<Rightarrow> string option \<Rightarrow> bool" where
  \<comment> \<open>the entry is a transaction with contents, and the path
      \<open>index/tx_inputs/{tx_id}\<close>, for its decoded 64-bit \<open>tx_id\<close>, lists more than ten
      entries\<close>
  "claimed_many_inputs s e =
     (case e of
        None \<Rightarrow> False
      | Some tx_path_str \<Rightarrow>
          (case get_content s tx_path_str of
             None \<Rightarrow> False
           | Some tx_json \<Rightarrow>
               (case list_path s
                       (''index/tx_inputs/'' @ show_int (sint (json_get_int64 tx_json ''tx_id''))) of
                  None \<Rightarrow> False
                | Some inputs \<Rightarrow> 10 < length inputs)))"

definition has_many_inputs :: "store \<Rightarrow> string option \<Rightarrow> bool" where
  \<comment> \<open>the same with the decoded \<open>tx_id\<close> reduced to a signed 32-bit integer\<close>
  "has_many_inputs s e =
     (case e of
        None \<Rightarrow> False
      | Some tx_path_str \<Rightarrow>
          (case get_content s tx_path_str of
             None \<Rightarrow> False
           | Some tx_json \<Rightarrow>
               (case list_path s
                       (''index/tx_inputs/''
                          @ show_int (signed_take_bit 31 (sint (json_get_int64 tx_json ''tx_id'')))) of
                  None \<Rightarrow> False
                | Some inputs \<Rightarrow> 10 < length inputs)))"

definition tx_id_fits_int :: "store \<Rightarrow> string option \<Rightarrow> bool" where
  \<comment> \<open>the decoded \<open>tx_id\<close> of the entry, if it has contents, lies between \<open>-2^31\<close> and
      \<open>2^31 - 1\<close>\<close>
  "tx_id_fits_int s e =
     (case e of
        None \<Rightarrow> True
      | Some tx_path_str \<Rightarrow>
          (case get_content s tx_path_str of
             None \<Rightarrow> True
           | Some tx_json \<Rightarrow>
               - (2 ^ 31) \<le> sint (json_get_int64 tx_json ''tx_id'') \<and>
               sint (json_get_int64 tx_json ''tx_id'') < 2 ^ 31))"

definition output_value_of :: "store \<Rightarrow> string option \<Rightarrow> 64 word option" where
  \<comment> \<open>the decoded value of the output that an output reference resolves to\<close>
  "output_value_of s e =
     (case e of
        None \<Rightarrow> None
      | Some out_path_str \<Rightarrow>
          (case resolve_output_ref s out_path_str of
             None \<Rightarrow> None
           | Some (out_tx_id, out_vout) \<Rightarrow>
               (case get_content s (output_path out_tx_id out_vout) of
                  None \<Rightarrow> None
                | Some output_json \<Rightarrow> Some (json_get_int64 output_json ''value''))))"

definition ref_output_values :: "store \<Rightarrow> string option \<Rightarrow> 64 word list" where
  \<comment> \<open>the output values reached from one block-transaction reference\<close>
  "ref_output_values s e =
     (case e of
        None \<Rightarrow> []
      | Some tx_path_str \<Rightarrow>
          (case resolve_tx_id s tx_path_str of
             None \<Rightarrow> []
           | Some tx_id \<Rightarrow>
               (case list_path s (tx_outputs_path tx_id) of
                  None \<Rightarrow> []
                | Some outputs \<Rightarrow> List.map_filter (output_value_of s) outputs)))"

definition block_output_values :: "store \<Rightarrow> 32 word \<Rightarrow> 64 word list" where
  "block_output_values s height =
     (case list_path s (block_txs_path height) of
        None \<Rightarrow> []
      | Some tx_refs \<Rightarrow> concat (map (ref_output_values s) tx_refs))"

definition heights_upto :: "32 word \<Rightarrow> 32 word list" where
  \<comment> \<open>the heights 0, 1, ..., \<open>last_height\<close>\<close>
  "heights_upto last_height = map word_of_int [0..sint last_height]"

definition output_values :: "store \<Rightarrow> 64 word list" where
  \<comment> \<open>every output value that the traversal of the blocks reaches\<close>
  "output_values s =
     concat (map (block_output_values s) (heights_upto (find_last_block_height s)))"

definition relisted :: "store \<Rightarrow> store \<Rightarrow> bool" where
  \<comment> \<open>the same contents, and every listing a permutation of the other store's\<close>
  "relisted s s' \<longleftrightarrow>
     contents s' = contents s \<and>
     (\<forall>p. rel_option (\<lambda>xs ys. mset xs = mset ys) (children s p) (children s' p))"

definition rev_store :: "store \<Rightarrow> store" where
  "rev_store s = s\<lparr>children := (\<lambda>p. map_option rev (children s p))\<rparr>"

definition claimed_order :: "string list" where
  \<comment> \<open>the metrics in the order of the catalog of the specification (block count,
      transaction count, address count, input count, output count, locktime, version,
      ...), under the names that the program prints\<close>
  "claimed_order =
     [''Block count'', ''Tx count'', ''Address count'', ''Input count'', ''Output count'',
      ''Tx locktime > 0'', ''Tx version > 1'', ''Max output value'', ''Calculate fee'',
      ''Total output value'', ''Total fees'', ''Avg tx per block'', ''Max tx per block'',
      ''Spent outputs'', ''Unspent outputs'', ''High value tx'', ''Multi-input tx'']"

definition line_name :: "string \<Rightarrow> string" where
  \<comment> \<open>the first field of a line of comma-separated values\<close>
  "line_name l = takeWhile (\<lambda>c. c \<noteq> CHR '','') l"

text \<open>Two notions for the proofs about loops that accumulate a sum or a maximum.\<close>

definition csemi :: "('a \<Rightarrow> 'a \<Rightarrow> 'a) \<Rightarrow> bool" where
  "csemi op \<longleftrightarrow> (\<forall>a b c. op (op a b) c = op a (op b c)) \<and> (\<forall>a b. op a b = op b a)"

definition acts :: "('a \<Rightarrow> 'a \<Rightarrow> 'a) \<Rightarrow> ('a \<Rightarrow> 'a) \<Rightarrow> bool" where
  \<comment> \<open>a loop body either leaves the accumulator alone or combines one value into it\<close>
  "acts op h \<longleftrightarrow> h = id \<or> (\<exists>v. h = (\<lambda>a. op a v))"

section \<open>Example stores and records\<close>

text \<open>
  Two blocks and three transactions: block 0 holds transaction 0, block 1 holds
  transactions 1 and 2; transaction 1 has eleven inputs; transactions 0 and 1 have
  one output each; nothing is spent.
\<close>

definition scenario_store :: store where
  "scenario_store =
     \<lparr> contents = (\<lambda>p.
         if p = ''index/block_txs/0/0'' then Some ''{\"tx_id\":0}''
         else if p = ''index/block_txs/1/0'' then Some ''{\"tx_id\":1}''
         else if p = ''index/block_txs/1/1'' then Some ''{\"tx_id\":2}''
         else if p = ''tx/0'' then Some ''{\"tx_id\":0,\"fee\":100,\"locktime\":0,\"version\":1}''
         else if p = ''tx/1'' then Some ''{\"tx_id\":1,\"fee\":2000000000,\"locktime\":5,\"version\":2}''
         else if p = ''tx/2'' then Some ''{\"tx_id\":2,\"fee\":50,\"locktime\":0,\"version\":1}''
         else if p = ''index/tx_outputs/0/0'' then Some ''{\"tx_id\":0,\"vout\":0}''
         else if p = ''index/tx_outputs/1/0'' then Some ''{\"tx_id\":1,\"vout\":0}''
         else if p = ''output/0/0'' then Some ''{\"value\":1000}''
         else if p = ''output/1/0'' then Some ''{\"value\":500}''
         else None),
       children = (\<lambda>p.
         if p = ''block'' then Some [Some ''block/0'', Some ''block/1'']
         else if p = ''tx'' then Some [Some ''tx/0'', Some ''tx/1'', Some ''tx/2'']
         else if p = ''index/block_txs/0'' then Some [Some ''index/block_txs/0/0'']
         else if p = ''index/block_txs/1''
           then Some [Some ''index/block_txs/1/0'', Some ''index/block_txs/1/1'']
         else if p = ''index/tx_inputs/1''
           then Some (map (\<lambda>i. Some (''index/tx_inputs/1/'' @ show_nat i)) [0..<11])
         else if p = ''index/tx_outputs/0'' then Some [Some ''index/tx_outputs/0/0'']
         else if p = ''index/tx_outputs/1'' then Some [Some ''index/tx_outputs/1/0'']
         else if p = ''index/spent_by'' then Some []
         else None) \<rparr>"

text \<open>
  One block with one transaction that has one output, and two spent-by entries:
  the indices are inconsistent.
\<close>

definition debt_store :: store where
  "debt_store =
     \<lparr> contents = (\<lambda>p. if p = ''index/block_txs/0/0'' then Some ''{\"tx_id\":0}'' else None),
       children = (\<lambda>p.
         if p = ''block'' then Some [Some ''block/0'']
         else if p = ''index/block_txs/0'' then Some [Some ''index/block_txs/0/0'']
         else if p = ''index/tx_outputs/0'' then Some [Some ''index/tx_outputs/0/0'']
         else if p = ''index/spent_by'' then Some [Some ''index/spent_by/5'']
         else if p = ''index/spent_by/5''
           then Some [Some ''index/spent_by/5/0'', Some ''index/spent_by/5/1'']
         else None) \<rparr>"

text \<open>A reference record whose \<open>tx_id\<close> does not fit 32 bits.\<close>

definition wide_id_store :: store where
  "wide_id_store =
     \<lparr> contents = (\<lambda>p. if p = ''index/block_txs/0/0'' then Some ''{\"tx_id\":4294967296}'' else None),
       children = (\<lambda>p. None) \<rparr>"

text \<open>A store whose only block has a negative height.\<close>

definition negative_height_store :: store where
  "negative_height_store =
     \<lparr> contents = (\<lambda>p. None),
       children = (\<lambda>p. if p = ''block'' then Some [Some ''block/-5''] else None) \<rparr>"

text \<open>
  A \<open>block\<close> listing with a suffix that is no number, an entry that cannot be read,
  an entry without \<open>/\<close> and a negative suffix.
\<close>

definition odd_block_store :: store where
  "odd_block_store =
     \<lparr> contents = (\<lambda>p. None),
       children = (\<lambda>p.
         if p = ''block''
         then Some [Some ''block/abc'', None, Some ''genesis'', Some ''block/-5'']
         else None) \<rparr>"

text \<open>A store whose only transaction has a negative fee.\<close>

definition negative_fee_store :: store where
  "negative_fee_store =
     \<lparr> contents = (\<lambda>p. if p = ''tx/0'' then Some ''{\"tx_id\":0,\"fee\":-5}'' else None),
       children = (\<lambda>p. if p = ''tx'' then Some [Some ''tx/0''] else None) \<rparr>"

text \<open>A store whose only transaction has exactly ten inputs.\<close>

definition ten_inputs_store :: store where
  "ten_inputs_store =
     \<lparr> contents = (\<lambda>p. if p = ''tx/4'' then Some ''{\"tx_id\":4,\"fee\":1}'' else None),
       children = (\<lambda>p.
         if p = ''tx'' then Some [Some ''tx/4'']
         else if p = ''index/tx_inputs/4''
           then Some (map (\<lambda>i. Some (''index/tx_inputs/4/'' @ show_nat i)) [0..<10])
         else None) \<rparr>"

text \<open>
  A store whose only transaction has the \<open>tx_id\<close> \<open>2^32 + 1\<close> and eleven inputs under
  that id.
\<close>

definition wide_tx_store :: store where
  "wide_tx_store =
     \<lparr> contents = (\<lambda>p. if p = ''tx/9'' then Some ''{\"tx_id\":4294967297,\"fee\":1}'' else None),
       children = (\<lambda>p.
         if p = ''tx'' then Some [Some ''tx/9'']
         else if p = ''index/tx_inputs/4294967297''
           then Some (map (\<lambda>i. Some (''index/tx_inputs/4294967297/'' @ show_nat i)) [0..<11])
         else None) \<rparr>"

text \<open>A store whose only block has the height \<open>INT_MAX\<close>.\<close>

definition int_max_store :: store where
  "int_max_store =
     \<lparr> contents = (\<lambda>p. None),
       children = (\<lambda>p. if p = ''block'' then Some [Some ''block/2147483647''] else None) \<rparr>"

text \<open>A key of 253 characters, and a record for it.\<close>

definition long_key :: string where
  "long_key = replicate 253 (CHR ''a'')"

definition long_key_record :: string where
  \<comment> \<open>the key between double quotes, followed by 7: there is no colon\<close>
  "long_key_record = [CHR 0x22] @ long_key @ [CHR 0x22] @ ''7''"

text \<open>A record with white space other than spaces before the number.\<close>

definition tab_record :: string where
  \<comment> \<open>a space, a tabulator and a line feed between the key and its number\<close>
  "tab_record = ''{\"fee\": '' @ [CHR 0x09, CHR 0x0A] @ ''-42x, \"fee\":7}''"

definition no_time :: "nat \<Rightarrow> string" where
  \<comment> \<open>a clock that measures nothing\<close>
  "no_time i = ''0.000''"

section \<open>The loop over the block heights returns unless the last height is \<open>INT_MAX\<close>\<close>

lemma sint_succ32:
  fixes h :: "32 word"
  assumes "sint h < 2147483647"
  shows "sint (h + 1) = sint h + 1"
proof -
  have "- (2 ^ 31) \<le> sint h" using sint_ge [of h] by simp
  then show ?thesis using assms
    by (simp add: sint_word_ariths signed_take_bit_int_eq_self)
qed

lemma for_height_returns:
  assumes "sint last_height < 2147483647" and "sint h \<le> sint last_height + 1"
  shows "for_height body last_height h acc
           = Some (fold body (map word_of_int [sint h..sint last_height]) acc)"
  using assms
proof (induction "nat (sint last_height + 1 - sint h)" arbitrary: h acc)
  case 0
  then have "\<not> h \<le>s last_height" by (simp add: word_sle_eq)
  moreover have "[sint h..sint last_height] = []" using 0 by simp
  ultimately show ?case by (subst for_height.simps) simp
next
  case (Suc n)
  then have le: "sint h \<le> sint last_height" by linarith
  then have lt: "sint h < 2147483647" using Suc.prems by linarith
  have s: "sint (h + 1) = sint h + 1" by (rule sint_succ32 [OF lt])
  have "for_height body last_height (h + 1) (body h acc)
          = Some (fold body (map word_of_int [sint (h + 1)..sint last_height]) (body h acc))"
    using Suc le s by (intro Suc.hyps) simp_all
  moreover have "[sint h..sint last_height] = sint h # [sint h + 1..sint last_height]"
    using le by (simp add: upto_rec1)
  ultimately show ?case using le s
    by (subst for_height.simps) (simp add: word_sle_eq)
qed

lemma sle_INT_MAX: "(k :: 32 word) \<le>s INT_MAX"
  using sint_lt [of k] by (simp add: word_sle_eq INT_MAX_def)

lemma for_height_Some_not_max:
  assumes "for_height body last_height h acc = Some r"
  shows "last_height \<noteq> INT_MAX"
proof (rule for_height.raw_induct
    [where P = "\<lambda>body last_height h acc r. last_height \<noteq> INT_MAX", OF _ assms])
  fix f :: "(32 word \<Rightarrow> 64 word \<Rightarrow> 64 word) \<Rightarrow> 32 word \<Rightarrow> 32 word \<Rightarrow> 64 word \<Rightarrow> 64 word option"
    and body last_height h acc r
  assume IH: "\<And>body last_height h acc r.
      f body last_height h acc = Some r \<Longrightarrow> last_height \<noteq> INT_MAX"
    and step: "(if h \<le>s last_height then f body last_height (h + 1) (body h acc) else Some acc)
                 = Some r"
  show "last_height \<noteq> INT_MAX"
  proof
    assume m: "last_height = INT_MAX"
    with step have "f body INT_MAX (h + 1) (body h acc) = Some r"
      by (simp add: sle_INT_MAX)
    from IH [OF this] show False by simp
  qed
qed

lemma for_height_diverges: "for_height body INT_MAX h acc = None"
  using for_height_Some_not_max [of body INT_MAX h acc]
  by (cases "for_height body INT_MAX h acc") auto

section \<open>Unspent outputs\<close>

lemma sint_diff_nonneg64:
  fixes x y :: "64 word"
  assumes "0 \<le>s x" and "0 \<le>s y"
  shows "sint (x - y) = sint x - sint y"
proof -
  have "0 \<le> sint x" "0 \<le> sint y" using assms by (simp_all add: word_sle_eq)
  moreover have "sint x < 2 ^ 63" "sint y < 2 ^ 63"
    using sint_lt [of x] sint_lt [of y] by simp_all
  ultimately show ?thesis
    by (simp add: sint_word_ariths signed_take_bit_int_eq_self)
qed

text \<open>
  C4: \<open>query_unspent_outputs\<close> is the output count minus the spent outputs, as
  \<open>int64_t\<close> values; it returns exactly when \<open>query_output_count\<close> returns. When both
  counts are non-negative the difference is the difference of the integers: it is
  negative when more outputs are spent than counted, and nothing clamps it.
\<close>

theorem unspent_is_difference:
  "(query_output_count s = None \<longrightarrow> query_unspent_outputs s = None) \<and>
   (\<forall>oc. query_output_count s = Some oc \<longrightarrow>
      query_unspent_outputs s = Some (oc - query_spent_outputs s) \<and>
      (0 \<le>s oc \<and> 0 \<le>s query_spent_outputs s \<longrightarrow>
         sint (oc - query_spent_outputs s) = sint oc - sint (query_spent_outputs s)))"
  by (auto simp: query_unspent_outputs_def Let_def sint_diff_nonneg64)

theorem unspent_is_difference_witness:
  "query_output_count debt_store = Some 1 \<and> query_spent_outputs debt_store = 2 \<and>
   query_unspent_outputs debt_store = Some (- 1) \<and> sint (1 - 2 :: 64 word) = - 1"
proof -
  have a: "query_output_count debt_store = Some 1" by code_simp
  have b: "query_spent_outputs debt_store = 2" by code_simp
  from unspent_is_difference [of debt_store] a b show ?thesis by simp
qed

section \<open>Average number of transactions per block\<close>

lemma sint_word_of_int64:
  assumes "- (2 ^ 63) \<le> k" and "k < 2 ^ 63"
  shows "sint (word_of_int k :: 64 word) = k"
  using assms by (simp add: sint_sbintrunc' signed_take_bit_int_eq_self)

lemma sdiv_int_nonneg:
  fixes k l :: int
  assumes "0 \<le> k" and "0 < l"
  shows "k sdiv l = k div l"
proof (cases "k = 0")
  case True
  then show ?thesis by (simp add: signed_divide_int_def)
next
  case False
  then have "sgn k = 1" "sgn l = 1" using assms by simp_all
  then show ?thesis using assms by (simp add: signed_divide_int_def)
qed

lemma sdiv_int_neg:
  fixes k l :: int
  assumes "k < 0" and "0 < l"
  shows "k sdiv l = - (\<bar>k\<bar> div l)"
proof -
  have "sgn k = - 1" "sgn l = 1" using assms by simp_all
  then show ?thesis using assms by (simp add: signed_divide_int_def)
qed

lemma sint_sdiv64_pos:
  fixes a b :: "64 word"
  assumes "0 <s b"
  shows "sint (sdiv64 a b) = sint a sdiv sint b"
proof -
  have b: "1 \<le> sint b" using assms by (simp add: word_sless_alt)
  have lo: "- (2 ^ 63) \<le> sint a" and hi: "sint a < 2 ^ 63"
    using sint_ge [of a] sint_lt [of a] by simp_all
  have q: "\<bar>sint a\<bar> div sint b \<le> \<bar>sint a\<bar>"
    using b by (metis abs_ge_zero div_by_1 zdiv_mono2 zero_less_one)
  have "- (2 ^ 63) \<le> sint a sdiv sint b \<and> sint a sdiv sint b < 2 ^ 63"
  proof (cases "0 \<le> sint a")
    case True
    then have "sint a sdiv sint b = sint a div sint b"
      using b by (simp add: sdiv_int_nonneg)
    moreover have "0 \<le> sint a div sint b" using True b by (simp add: pos_imp_zdiv_nonneg_iff)
    ultimately show ?thesis using q True hi by simp
  next
    case False
    then have "sint a sdiv sint b = - (\<bar>sint a\<bar> div sint b)"
      using b by (simp add: sdiv_int_neg)
    moreover have "0 \<le> \<bar>sint a\<bar> div sint b" using b by (simp add: pos_imp_zdiv_nonneg_iff)
    ultimately show ?thesis using q False lo by simp
  qed
  then show ?thesis
    by (simp add: sdiv64_def sint_word_of_int64)
qed

lemma sint_times_1000:
  fixes t :: "64 word"
  assumes "0 \<le>s t" and "sint t * 1000 < 2 ^ 63"
  shows "sint (t * 1000) = sint t * 1000"
proof -
  have "0 \<le> sint t" using assms(1) by (simp add: word_sle_eq)
  then show ?thesis using assms(2)
    by (simp add: sint_word_ariths signed_take_bit_int_eq_self)
qed

text \<open>
  C3: \<open>query_avg_tx_per_block\<close> is 0 when the block count is 0. When the block count
  is positive it is the \<open>int64_t\<close> product of the transaction count and 1000,
  divided by the block count with the quotient truncated towards zero (\<open>sdiv\<close> on
  the integers); when the product does not wrap this is the integer quotient
  \<open>(tx_count * 1000) div block_count\<close>.
\<close>

theorem avg_tx_per_block_value:
  "(query_block_count s = 0 \<longrightarrow> query_avg_tx_per_block s = 0) \<and>
   (0 <s query_block_count s \<longrightarrow>
      sint (query_avg_tx_per_block s)
        = sint (query_tx_count s * 1000) sdiv sint (query_block_count s)) \<and>
   (0 <s query_block_count s \<and> 0 \<le>s query_tx_count s \<and> sint (query_tx_count s) * 1000 < 2 ^ 63 \<longrightarrow>
      sint (query_avg_tx_per_block s)
        = (sint (query_tx_count s) * 1000) div sint (query_block_count s))"
proof (intro conjI impI)
  assume "query_block_count s = 0"
  then show "query_avg_tx_per_block s = 0" by (simp add: query_avg_tx_per_block_def)
next
  assume p: "0 <s query_block_count s"
  then have "query_block_count s \<noteq> 0" by auto
  then show "sint (query_avg_tx_per_block s)
        = sint (query_tx_count s * 1000) sdiv sint (query_block_count s)"
    using p by (simp add: query_avg_tx_per_block_def Let_def sint_sdiv64_pos)
next
  assume h: "0 <s query_block_count s \<and> 0 \<le>s query_tx_count s \<and> sint (query_tx_count s) * 1000 < 2 ^ 63"
  then have nz: "query_block_count s \<noteq> 0" by auto
  have b: "0 < sint (query_block_count s)" using h by (simp add: word_sless_alt)
  have t: "0 \<le> sint (query_tx_count s)" using h by (simp add: word_sle_eq)
  have "sint (query_avg_tx_per_block s) = (sint (query_tx_count s) * 1000) sdiv sint (query_block_count s)"
    using h nz by (simp add: query_avg_tx_per_block_def Let_def sint_sdiv64_pos sint_times_1000)
  also have "\<dots> = (sint (query_tx_count s) * 1000) div sint (query_block_count s)"
    using b t by (simp add: sdiv_int_nonneg)
  finally show "sint (query_avg_tx_per_block s)
        = (sint (query_tx_count s) * 1000) div sint (query_block_count s)" .
qed

theorem avg_tx_per_block_value_witness:
  "query_block_count scenario_store = 2 \<and> query_tx_count scenario_store = 3 \<and>
   sint (query_avg_tx_per_block scenario_store) = 1500"
proof -
  have a: "query_block_count scenario_store = 2" by code_simp
  have b: "query_tx_count scenario_store = 3" by code_simp
  have c: "(0 :: 64 word) <s 2" "(0 :: 64 word) \<le>s 3"
    by (simp_all add: word_sless_alt word_sle_eq)
  from avg_tx_per_block_value [of scenario_store] c show ?thesis
    by (simp add: a b)
qed

section \<open>Resolving a block-transaction reference\<close>

lemma ucast_as_sint:
  fixes w :: "64 word"
  shows "(ucast w :: 32 word) = word_of_int (sint w)"
  by (rule bit_word_eqI) (auto simp: bit_simps min_def)

lemma ucast_64_32_sint:
  fixes w :: "64 word"
  shows "sint (ucast w :: 32 word) = signed_take_bit 31 (sint w)"
  by (subst ucast_as_sint) (rule sint_sbintrunc' [where 'a = 32, simplified])




section \<open>Decoding an integer field\<close>

lemma strstr_c_None_iff: "strstr_c hay needle = None \<longleftrightarrow> \<not> sublist needle hay"
proof (induction hay)
  case Nil
  then show ?case by simp
next
  case (Cons c cs)
  then show ?case by (auto simp: sublist_Cons_right)
qed

lemma strstr_c_first:
  assumes "hay = pre @ needle @ post"
    and "\<And>pre' post'. hay = pre' @ needle @ post' \<Longrightarrow> length pre \<le> length pre'"
  shows "strstr_c hay needle = Some (needle @ post)"
  using assms
proof (induction pre arbitrary: hay)
  case Nil
  then have h: "hay = needle @ post" by simp
  then have p: "prefix needle hay" by simp
  show ?case
  proof (cases hay)
    case Nil
    then show ?thesis using h by simp
  next
    case (Cons c cs)
    then have "strstr_c hay needle = Some hay" using p by simp
    then show ?thesis using h by simp
  qed
next
  case (Cons a pre)
  have np: "\<not> prefix needle hay"
  proof
    assume "prefix needle hay"
    then obtain post' where "hay = [] @ needle @ post'" by (auto simp: prefix_def)
    from Cons.prems(2) [OF this] show False by simp
  qed
  have tl: "strstr_c (pre @ needle @ post) needle = Some (needle @ post)"
  proof (rule Cons.IH [OF refl])
    fix pre' post'
    assume "pre @ needle @ post = pre' @ needle @ post'"
    then have "hay = (a # pre') @ needle @ post'" using Cons.prems(1) by simp
    from Cons.prems(2) [OF this] show "length pre \<le> length pre'" by simp
  qed
  show ?case using np tl Cons.prems(1) by simp
qed

lemma snprintf_256_short: "length out \<le> 255 \<Longrightarrow> snprintf_256 out = out"
  by (simp add: snprintf_256_def)

lemma digit_not_space: "isdigit_c c \<Longrightarrow> \<not> isspace_c c"
  by (auto simp: isdigit_c_def isspace_c_def)

lemma digit_not_sign: "isdigit_c c \<Longrightarrow> c \<noteq> CHR ''-'' \<and> c \<noteq> CHR ''+''"
  by (auto simp: isdigit_c_def)

lemma takeWhile_digits:
  assumes "\<forall>d\<in>set ds. isdigit_c d" and "rest = [] \<or> \<not> isdigit_c (hd rest)"
  shows "takeWhile isdigit_c (ds @ rest) = ds"
  using assms by (cases rest) auto

lemma strtoll_c_parse:
  assumes sg: "sg = [] \<or> sg = ''-'' \<or> sg = ''+''"
    and ds: "\<forall>d\<in>set ds. isdigit_c d"
    and rest: "rest = [] \<or> \<not> isdigit_c (hd rest)"
    and bare: "sg = [] \<and> ds = [] \<longrightarrow>
                 rest = [] \<or> (\<not> isspace_c (hd rest) \<and> hd rest \<noteq> CHR ''-'' \<and> hd rest \<noteq> CHR ''+'')"
  shows "strtoll_c (sg @ ds @ rest) = word_of_int (clamp_ll (sign_factor sg * decimal ds))"
proof -
  have tw: "takeWhile isdigit_c (ds @ rest) = ds" by (rule takeWhile_digits [OF ds rest])
  have sp: "\<not> isspace_c (CHR ''-'')" "\<not> isspace_c (CHR ''+'')" by (simp_all add: isspace_c_def)
  consider (minus) "sg = ''-''" | (plus) "sg = ''+''" | (none) "sg = []" using sg by blast
  then show ?thesis
  proof cases
    case minus
    then show ?thesis using tw sp by (simp add: strtoll_c_def sign_factor_def)
  next
    case plus
    then show ?thesis using tw sp by (simp add: strtoll_c_def sign_factor_def)
  next
    case none
    show ?thesis
    proof (cases ds)
      case Nil
      show ?thesis
      proof (cases rest)
        case Nil
        then show ?thesis using none \<open>ds = []\<close>
          by (simp add: strtoll_c_def sign_factor_def decimal_def)
      next
        case (Cons r rs)
        then have h: "\<not> isspace_c r" "r \<noteq> CHR ''-''" "r \<noteq> CHR ''+''" "\<not> isdigit_c r"
          using bare rest none \<open>ds = []\<close> by auto
        then show ?thesis using none \<open>ds = []\<close> Cons
          by (simp add: strtoll_c_def sign_factor_def decimal_def)
      qed
    next
      case (Cons d ds')
      then have d: "isdigit_c d" using ds by simp
      have "dropWhile isspace_c (ds @ rest) = ds @ rest"
        using Cons d digit_not_space by simp
      moreover have "hd (ds @ rest) = d" "ds @ rest \<noteq> []" using Cons by simp_all
      ultimately show ?thesis using none tw digit_not_sign [OF d]
        by (simp add: strtoll_c_def sign_factor_def)
    qed
  qed
qed

lemma strtoll_c_skips_space:
  assumes "\<forall>c\<in>set ws. isspace_c c"
  shows "strtoll_c (ws @ t) = strtoll_c t"
proof -
  have "dropWhile isspace_c (ws @ t) = dropWhile isspace_c t"
    using assms by (intro dropWhile_append2) auto
  then show ?thesis by (simp add: strtoll_c_def)
qed

lemma dropWhile_space_then_isspace:
  "dropWhile isspace_c (dropWhile (\<lambda>c. c = CHR '' '') xs) = dropWhile isspace_c xs"
  by (induction xs) (auto simp: isspace_c_def)

lemma strtoll_c_after_spaces:
  "strtoll_c (dropWhile (\<lambda>c. c = CHR '' '') xs) = strtoll_c xs"
  by (simp add: strtoll_c_def dropWhile_space_then_isspace)

lemma first_occurrence_exists:
  assumes "sublist needle hay"
  shows "\<exists>pre post. hay = pre @ needle @ post \<and>
           (\<forall>pre' post'. hay = pre' @ needle @ post' \<longrightarrow> length pre \<le> length pre')"
proof -
  let ?P = "\<lambda>n. \<exists>pre post. hay = pre @ needle @ post \<and> length pre = n"
  have ex: "\<exists>n. ?P n" using assms by (auto simp: sublist_def)
  define n where "n = (LEAST n. ?P n)"
  have "?P n" unfolding n_def using ex by (rule LeastI_ex)
  then obtain pre post where d: "hay = pre @ needle @ post" "length pre = n" by blast
  have "length pre \<le> length pre'" if "hay = pre' @ needle @ post'" for pre' post'
  proof -
    have "?P (length pre')" using that by blast
    then have "n \<le> length pre'" unfolding n_def by (rule Least_le)
    then show ?thesis using d(2) by simp
  qed
  then show ?thesis using d(1) by blast
qed

lemma number_parts_exist:
  "\<exists>ws sg ds rest.
     post = ws @ sg @ ds @ rest \<and>
     (\<forall>c\<in>set ws. isspace_c c) \<and>
     (sg = [] \<or> sg = ''-'' \<or> sg = ''+'') \<and>
     (\<forall>d\<in>set ds. isdigit_c d) \<and>
     (rest = [] \<or> \<not> isdigit_c (hd rest)) \<and>
     (sg = [] \<and> ds = [] \<longrightarrow>
        rest = [] \<or> (\<not> isspace_c (hd rest) \<and> hd rest \<noteq> CHR ''-'' \<and> hd rest \<noteq> CHR ''+''))"
proof -
  define ws where "ws = takeWhile isspace_c post"
  define t where "t = dropWhile isspace_c post"
  define sg where "sg = (if t \<noteq> [] \<and> (hd t = CHR ''-'' \<or> hd t = CHR ''+'') then [hd t] else [])"
  define u where "u = drop (length sg) t"
  define ds where "ds = takeWhile isdigit_c u"
  define rest where "rest = dropWhile isdigit_c u"
  have p: "post = ws @ t" by (simp add: ws_def t_def)
  have tu: "t = sg @ u" by (cases t) (auto simp: sg_def u_def)
  have ud: "u = ds @ rest" by (simp add: ds_def rest_def)
  have 1: "post = ws @ sg @ ds @ rest" using p tu ud by simp
  have 2: "\<forall>c\<in>set ws. isspace_c c" by (auto simp: ws_def dest: set_takeWhileD)
  have 3: "sg = [] \<or> sg = ''-'' \<or> sg = ''+''" by (auto simp: sg_def)
  have 4: "\<forall>d\<in>set ds. isdigit_c d" by (auto simp: ds_def dest: set_takeWhileD)
  have 5: "rest = [] \<or> \<not> isdigit_c (hd rest)"
    unfolding rest_def by (metis hd_dropWhile)
  have t0: "t = [] \<or> \<not> isspace_c (hd t)" unfolding t_def by (metis hd_dropWhile)
  have 6: "sg = [] \<and> ds = [] \<longrightarrow>
        rest = [] \<or> (\<not> isspace_c (hd rest) \<and> hd rest \<noteq> CHR ''-'' \<and> hd rest \<noteq> CHR ''+'')"
  proof
    assume a: "sg = [] \<and> ds = []"
    then have "rest = t" using tu ud by simp
    moreover have "t = [] \<or> (hd t \<noteq> CHR ''-'' \<and> hd t \<noteq> CHR ''+'')"
      using a by (auto simp: sg_def split: if_splits)
    ultimately show "rest = [] \<or> (\<not> isspace_c (hd rest) \<and> hd rest \<noteq> CHR ''-'' \<and> hd rest \<noteq> CHR ''+'')"
      using t0 by auto
  qed
  show ?thesis using 1 2 3 4 5 6 by blast
qed

text \<open>
  C2: for a key of at most 252 characters the search text \<open>"key":\<close> fits the
  256-byte buffer. When the record does not contain it, \<open>json_get_int64\<close> returns 0.
  When it does, the text after its first occurrence is read: spaces, and any
  further white space, are skipped, then an optional sign and the longest run of
  digits give the value (0 when there is no digit), brought into the range of
  \<open>int64_t\<close>; what follows the digits is not looked at, and neither is what
  precedes the key. Every record that contains the search text is read in this
  way.
\<close>

theorem json_get_int64_scan:
  assumes "length key \<le> 252"
  shows "(\<not> sublist (json_key_literal key) json \<longrightarrow> json_get_int64 json key = 0) \<and>
    (\<forall>pre ws sg ds rest.
       number_after_key key json pre ws sg ds rest
       \<longrightarrow> json_get_int64 json key = word_of_int (clamp_ll (sign_factor sg * decimal ds))) \<and>
    (sublist (json_key_literal key) json \<longrightarrow>
       (\<exists>pre ws sg ds rest. number_after_key key json pre ws sg ds rest))"
proof -
  have search: "snprintf_256 ([CHR 0x22] @ key @ [CHR 0x22, CHR '':'']) = json_key_literal key"
    using assms by (simp add: json_key_literal_def snprintf_256_short)
  have absent: "json_get_int64 json key = 0" if "\<not> sublist (json_key_literal key) json"
  proof -
    have "strstr_c json (json_key_literal key) = None"
      using that by (simp add: strstr_c_None_iff)
    then show ?thesis using search by (simp add: json_get_int64_def)
  qed
  have found: "json_get_int64 json key = word_of_int (clamp_ll (sign_factor sg * decimal ds))"
    if n: "number_after_key key json pre ws sg ds rest" for pre ws sg ds rest
  proof -
    have dec: "json = pre @ json_key_literal key @ ws @ sg @ ds @ rest"
      and first: "\<forall>pre' post'. json = pre' @ json_key_literal key @ post' \<longrightarrow> length pre \<le> length pre'"
      and ws: "\<forall>c\<in>set ws. isspace_c c"
      and sg: "sg = [] \<or> sg = ''-'' \<or> sg = ''+''"
      and ds: "\<forall>d\<in>set ds. isdigit_c d"
      and rest: "rest = [] \<or> \<not> isdigit_c (hd rest)"
      and bare: "sg = [] \<and> ds = [] \<longrightarrow>
          rest = [] \<or> (\<not> isspace_c (hd rest) \<and> hd rest \<noteq> CHR ''-'' \<and> hd rest \<noteq> CHR ''+'')"
      using n unfolding number_after_key_def by blast+
    have pos: "strstr_c json (json_key_literal key)
                 = Some (json_key_literal key @ ws @ sg @ ds @ rest)"
    proof (rule strstr_c_first [OF dec])
      fix pre' post'
      assume "json = pre' @ json_key_literal key @ post'"
      then show "length pre \<le> length pre'" using first by blast
    qed
    have "json_get_int64 json key
            = strtoll_c (dropWhile (\<lambda>c. c = CHR '' '') (ws @ sg @ ds @ rest))"
      using pos search by (simp add: json_get_int64_def)
    also have "\<dots> = strtoll_c (ws @ sg @ ds @ rest)" by (rule strtoll_c_after_spaces)
    also have "\<dots> = strtoll_c (sg @ ds @ rest)" by (rule strtoll_c_skips_space [OF ws])
    finally show ?thesis using strtoll_c_parse [OF sg ds rest bare] by simp
  qed
  have total: "\<exists>pre ws sg ds rest. number_after_key key json pre ws sg ds rest"
    if sub: "sublist (json_key_literal key) json"
  proof -
    obtain pre post where d: "json = pre @ json_key_literal key @ post"
      and f: "\<forall>pre' post'. json = pre' @ json_key_literal key @ post' \<longrightarrow> length pre \<le> length pre'"
      using first_occurrence_exists [OF sub] by blast
    obtain ws sg ds rest where "post = ws @ sg @ ds @ rest"
      "\<forall>c\<in>set ws. isspace_c c" "sg = [] \<or> sg = ''-'' \<or> sg = ''+''"
      "\<forall>d\<in>set ds. isdigit_c d" "rest = [] \<or> \<not> isdigit_c (hd rest)"
      "sg = [] \<and> ds = [] \<longrightarrow>
        rest = [] \<or> (\<not> isspace_c (hd rest) \<and> hd rest \<noteq> CHR ''-'' \<and> hd rest \<noteq> CHR ''+'')"
      using number_parts_exist [of post] by blast
    then have "number_after_key key json pre ws sg ds rest"
      using d f unfolding number_after_key_def by blast
    then show ?thesis by blast
  qed
  show ?thesis using absent found total by blast
qed

theorem json_get_int64_scan_witness:
  "length ''fee'' \<le> (252 :: nat) \<and>
   \<not> sublist (json_key_literal ''vout'') tab_record \<and>
   json_get_int64 tab_record ''vout'' = 0 \<and>
   number_after_key ''fee'' tab_record ''{'' ('' '' @ [CHR 0x09, CHR 0x0A]) ''-'' ''42'' ''x, \"fee\":7}'' \<and>
   json_get_int64 tab_record ''fee'' = - 42"
proof -
  have len: "length ''fee'' \<le> (252 :: nat)" "length ''vout'' \<le> (252 :: nat)" by simp_all
  have absent: "\<not> sublist (json_key_literal ''vout'') tab_record"
  proof
    assume "sublist (json_key_literal ''vout'') tab_record"
    then have "set (json_key_literal ''vout'') \<subseteq> set tab_record" by (rule set_mono_sublist)
    then show False by (simp add: json_key_literal_def tab_record_def)
  qed
  have first: "\<forall>pre' post'. tab_record = pre' @ json_key_literal ''fee'' @ post'
      \<longrightarrow> length ''{'' \<le> length pre'"
  proof (intro allI impI)
    fix pre' post'
    assume e: "tab_record = pre' @ json_key_literal ''fee'' @ post'"
    have "pre' \<noteq> []"
    proof
      assume "pre' = []"
      with e have "hd tab_record = hd (json_key_literal ''fee'' @ post')" by simp
      then show False by (simp add: json_key_literal_def tab_record_def)
    qed
    then show "length ''{'' \<le> length pre'" by (cases pre') simp_all
  qed
  have parts: "number_after_key ''fee'' tab_record ''{'' ('' '' @ [CHR 0x09, CHR 0x0A]) ''-'' ''42''
      ''x, \"fee\":7}''"
    unfolding number_after_key_def
    by (intro conjI first) (simp_all add: tab_record_def json_key_literal_def isspace_c_def isdigit_c_def)
  have val: "(word_of_int (clamp_ll (sign_factor ''-'' * decimal ''42'')) :: 64 word) = - 42"
    by (simp add: clamp_ll_def sign_factor_def decimal_def digit_val_def)
  have a: "json_get_int64 tab_record ''vout'' = 0"
    using json_get_int64_scan [OF len(2), of tab_record] absent by blast
  have "json_get_int64 tab_record ''fee'' = word_of_int (clamp_ll (sign_factor ''-'' * decimal ''42''))"
    using json_get_int64_scan [OF len(1), of tab_record] parts by blast
  then have b: "json_get_int64 tab_record ''fee'' = - 42" using val by simp
  show ?thesis using len absent parts a b by blast
qed

text \<open>
  With a key of 253 characters the search text loses its colon: a record in which
  the key between double quotes is followed by 7, and which has no colon at all,
  gives 7.
\<close>

theorem json_get_int64_long_key:
  "\<not> sublist (json_key_literal long_key) long_key_record \<and>
   json_get_int64 long_key_record long_key = 7"
proof
  show "\<not> sublist (json_key_literal long_key) long_key_record"
  proof
    assume "sublist (json_key_literal long_key) long_key_record"
    then have "set (json_key_literal long_key) \<subseteq> set long_key_record"
      by (rule set_mono_sublist)
    then show False by (simp add: json_key_literal_def long_key_record_def long_key_def)
  qed
  show "json_get_int64 long_key_record long_key = 7" by code_simp
qed

section \<open>Loops that accumulate a sum or a maximum\<close>

lemma sint_inj: "sint a = sint b \<Longrightarrow> a = b" for a b :: "'a::len word"
proof (rule signed_word_eqI)
  assume "sint a = sint b"
  then show "(signed a :: int) = signed b" by simp
qed

lemma sint_smax: "sint (smax a v) = max (sint a) (sint v)"
  by (simp add: smax_def word_sless_alt max_def)

lemma csemi_smax: "csemi (smax :: 'a::len word \<Rightarrow> 'a word \<Rightarrow> 'a word)"
  unfolding csemi_def
proof (intro conjI allI)
  fix a b c :: "'a word"
  show "smax (smax a b) c = smax a (smax b c)"
    by (rule sint_inj) (simp add: sint_smax max.assoc)
  show "smax a b = smax b a"
    by (rule sint_inj) (simp add: sint_smax max.commute)
qed

lemma csemi_add: "csemi ((+) :: 'a::len word \<Rightarrow> 'a word \<Rightarrow> 'a word)"
  by (simp add: csemi_def add.assoc add.commute)

lemma acts_id: "acts op id"
  by (simp add: acts_def)

lemma acts_skip: "acts op (\<lambda>a. a)"
  using acts_id [of op] by (simp add: id_def)

lemma acts_step: "acts op (\<lambda>a. op a v)"
  by (auto simp: acts_def)

lemma acts_comp:
  assumes "csemi op" and "acts op h" and "acts op k"
  shows "acts op (h \<circ> k)"
proof -
  have assoc: "\<And>a b c. op (op a b) c = op a (op b c)"
    using assms(1) unfolding csemi_def by blast
  consider "h = id" | "k = id" | v w where "h = (\<lambda>a. op a v)" "k = (\<lambda>a. op a w)"
    using assms(2,3) by (auto simp: acts_def)
  then show ?thesis
  proof cases
    case 1
    then show ?thesis using assms(3) by simp
  next
    case 2
    then show ?thesis using assms(2) by simp
  next
    case 3
    then have "h \<circ> k = (\<lambda>a. op a (op w v))" by (simp add: fun_eq_iff assoc)
    then show ?thesis by (simp add: acts_step)
  qed
qed

lemma acts_fold:
  assumes "csemi op" and "\<And>x. x \<in> set xs \<Longrightarrow> acts op (f x)"
  shows "acts op (fold f xs)"
  using assms(2)
proof (induction xs)
  case Nil
  then show ?case by (simp add: acts_skip)
next
  case (Cons x xs)
  have "acts op (fold f xs \<circ> f x)"
    by (rule acts_comp [OF assms(1)]) (simp_all add: Cons)
  then show ?case by (simp only: fold.simps)
qed

lemma acts_commute:
  assumes "csemi op" and "acts op h" and "acts op k"
  shows "h \<circ> k = k \<circ> h"
proof -
  have assoc: "\<And>a b c. op (op a b) c = op a (op b c)"
    and comm: "\<And>a b. op a b = op b a"
    using assms(1) unfolding csemi_def by blast+
  have swap: "op (op a v) w = op (op a w) v" for a v w
  proof -
    have "op (op a v) w = op a (op v w)" by (rule assoc)
    also have "\<dots> = op a (op w v)" by (simp only: comm [of v w])
    also have "\<dots> = op (op a w) v" by (rule assoc [symmetric])
    finally show ?thesis .
  qed
  consider "h = id" | "k = id" | v w where "h = (\<lambda>a. op a v)" "k = (\<lambda>a. op a w)"
    using assms(2,3) by (auto simp: acts_def)
  then show ?thesis
  proof cases
    case 3
    then have "h (k a) = k (h a)" for a by (simp only: swap)
    then show ?thesis by (simp add: fun_eq_iff)
  qed simp_all
qed

lemma fold_acts_perm:
  assumes "csemi op" and "\<And>x. acts op (f x)" and "mset xs = mset ys"
  shows "fold f xs = fold f ys"
  by (rule fold_multiset_equiv [OF _ assms(3)]) (rule acts_commute [OF assms(1) assms(2) assms(2)])

section \<open>Stores that differ in the order of their listings\<close>

lemma relisted_content: "relisted s s' \<Longrightarrow> get_content s' p = get_content s p"
  by (simp add: relisted_def get_content_def)

lemma relisted_list:
  assumes "relisted s s'"
  shows "rel_option (\<lambda>xs ys. mset xs = mset ys) (list_path s p) (list_path s' p)"
  using assms by (simp add: relisted_def list_path_def)

lemma relisted_length:
  assumes "relisted s s'"
  shows "map_option length (list_path s' p) = map_option length (list_path s p)"
  using relisted_list [OF assms, of p]
  by (cases "list_path s p"; cases "list_path s' p") (auto dest: mset_eq_length)

lemma relisted_fold:
  assumes "relisted s s'" and "csemi op" and "\<And>x. acts op (f x)"
  shows "(case list_path s' p of None \<Rightarrow> a | Some xs \<Rightarrow> fold f xs a)
           = (case list_path s p of None \<Rightarrow> a | Some xs \<Rightarrow> fold f xs a)"
proof (cases "list_path s p")
  case None
  then have "list_path s' p = None" using relisted_list [OF assms(1), of p] by simp
  then show ?thesis using None by simp
next
  case (Some xs)
  then obtain ys where ys: "list_path s' p = Some ys" and m: "mset xs = mset ys"
    using relisted_list [OF assms(1), of p] by (cases "list_path s' p") auto
  have "fold f xs = fold f ys" by (rule fold_acts_perm [OF assms(2) assms(3) m])
  then show ?thesis using Some ys by simp
qed

lemma acts_listing:
  assumes "csemi op" and "\<And>x. acts op (f x)"
  shows "acts op (\<lambda>a. case list_path s p of None \<Rightarrow> a | Some xs \<Rightarrow> fold f xs a)"
proof (cases "list_path s p")
  case None
  then show ?thesis by (simp add: acts_skip)
next
  case (Some xs)
  have "acts op (fold f xs)" by (rule acts_fold [OF assms(1)]) (rule assms(2))
  then show ?thesis using Some by simp
qed

lemma relisted_rev_store: "relisted s (rev_store s)"
  unfolding relisted_def rev_store_def
proof (intro conjI allI)
  fix p
  show "rel_option (\<lambda>xs ys. mset xs = mset ys) (children s p)
          (children (s\<lparr>children := \<lambda>p. map_option rev (children s p)\<rparr>) p)"
    by (cases "children s p") simp_all
qed simp

section \<open>The loop bodies combine values into their accumulator\<close>

lemma acts_block_height_step: "acts smax (block_height_step e)"
proof -
  have "block_height_step e = (\<lambda>a. a) \<or> (\<exists>v. block_height_step e = (\<lambda>a. smax a v))"
    by (auto simp: block_height_step_def smax_def fun_eq_iff Let_def split: option.splits)
  then show ?thesis by (auto simp: acts_def id_def)
qed

lemma acts_input_count_ref: "acts (+) (input_count_ref s e)"
proof -
  have "input_count_ref s e = (\<lambda>a. a) \<or> (\<exists>v. input_count_ref s e = (\<lambda>a. a + v))"
    by (auto simp: input_count_ref_def fun_eq_iff split: option.splits)
  then show ?thesis by (auto simp: acts_def id_def)
qed

lemma acts_output_count_ref: "acts (+) (output_count_ref s e)"
proof -
  have "output_count_ref s e = (\<lambda>a. a) \<or> (\<exists>v. output_count_ref s e = (\<lambda>a. a + v))"
    by (auto simp: output_count_ref_def fun_eq_iff split: option.splits)
  then show ?thesis by (auto simp: acts_def id_def)
qed

lemma acts_locktime_step: "acts (+) (locktime_step s e)"
proof -
  have "locktime_step s e = (\<lambda>a. a) \<or> (\<exists>v. locktime_step s e = (\<lambda>a. a + v))"
    by (auto simp: locktime_step_def fun_eq_iff Let_def split: option.splits)
  then show ?thesis by (auto simp: acts_def id_def)
qed

lemma acts_version_step: "acts (+) (version_step s e)"
proof -
  have "version_step s e = (\<lambda>a. a) \<or> (\<exists>v. version_step s e = (\<lambda>a. a + v))"
    by (auto simp: version_step_def fun_eq_iff Let_def split: option.splits)
  then show ?thesis by (auto simp: acts_def id_def)
qed

lemma acts_high_value_step: "acts (+) (high_value_step s e)"
proof -
  have "high_value_step s e = (\<lambda>a. a) \<or> (\<exists>v. high_value_step s e = (\<lambda>a. a + v))"
    by (auto simp: high_value_step_def fun_eq_iff Let_def split: option.splits)
  then show ?thesis by (auto simp: acts_def id_def)
qed

lemma acts_multi_input_step: "acts (+) (multi_input_step s e)"
proof -
  have "multi_input_step s e = (\<lambda>a. a) \<or> (\<exists>v. multi_input_step s e = (\<lambda>a. a + v))"
    by (auto simp: multi_input_step_def fun_eq_iff Let_def split: option.splits)
  then show ?thesis by (auto simp: acts_def id_def)
qed

lemma acts_fee_sum_step: "acts (+) (fee_sum_step s e)"
proof -
  have "fee_sum_step s e = (\<lambda>a. a) \<or> (\<exists>v. fee_sum_step s e = (\<lambda>a. a + v))"
    by (auto simp: fee_sum_step_def fun_eq_iff split: option.splits)
  then show ?thesis by (auto simp: acts_def id_def)
qed

lemma acts_spent_step: "acts (+) (spent_step s e)"
proof -
  have "spent_step s e = (\<lambda>a. a) \<or> (\<exists>v. spent_step s e = (\<lambda>a. a + v))"
    by (auto simp: spent_step_def fun_eq_iff split: option.splits)
  then show ?thesis by (auto simp: acts_def id_def)
qed

lemma acts_fee_max_step: "acts smax (fee_max_step s e)"
proof -
  have "fee_max_step s e = (\<lambda>a. a) \<or> (\<exists>v. fee_max_step s e = (\<lambda>a. smax a v))"
    by (auto simp: fee_max_step_def smax_def fun_eq_iff Let_def split: option.splits)
  then show ?thesis by (auto simp: acts_def id_def)
qed

lemma acts_max_output_out: "acts smax (max_output_out s e)"
proof -
  have "max_output_out s e = (\<lambda>a. a) \<or> (\<exists>v. max_output_out s e = (\<lambda>a. smax a v))"
    by (auto simp: max_output_out_def smax_def fun_eq_iff Let_def split: option.splits)
  then show ?thesis by (auto simp: acts_def id_def)
qed

lemma acts_total_output_out: "acts (+) (total_output_out s e)"
proof -
  have "total_output_out s e = (\<lambda>a. a) \<or> (\<exists>v. total_output_out s e = (\<lambda>a. a + v))"
    by (auto simp: total_output_out_def fun_eq_iff split: option.splits)
  then show ?thesis by (auto simp: acts_def id_def)
qed

lemma max_output_ref_listing:
  "max_output_ref s e =
     (case e of
        None \<Rightarrow> (\<lambda>a. a)
      | Some p \<Rightarrow>
          (case resolve_tx_id s p of
             None \<Rightarrow> (\<lambda>a. a)
           | Some tx_id \<Rightarrow>
               (\<lambda>a. case list_path s (tx_outputs_path tx_id) of
                      None \<Rightarrow> a
                    | Some outputs \<Rightarrow> fold (max_output_out s) outputs a)))"
  by (simp add: max_output_ref_def fun_eq_iff split: option.splits)

lemma total_output_ref_listing:
  "total_output_ref s e =
     (case e of
        None \<Rightarrow> (\<lambda>a. a)
      | Some p \<Rightarrow>
          (case resolve_tx_id s p of
             None \<Rightarrow> (\<lambda>a. a)
           | Some tx_id \<Rightarrow>
               (\<lambda>a. case list_path s (tx_outputs_path tx_id) of
                      None \<Rightarrow> a
                    | Some outputs \<Rightarrow> fold (total_output_out s) outputs a)))"
  by (simp add: total_output_ref_def fun_eq_iff split: option.splits)

lemma acts_max_output_ref: "acts smax (max_output_ref s e)"
  unfolding max_output_ref_listing
  by (auto split: option.splits
      intro!: acts_skip acts_listing [OF csemi_smax] acts_max_output_out)

lemma acts_total_output_ref: "acts (+) (total_output_ref s e)"
  unfolding total_output_ref_listing
  by (auto split: option.splits
      intro!: acts_skip acts_listing [OF csemi_add] acts_total_output_out)


section \<open>The queries do not depend on the order of the listings\<close>

lemma relisted_resolve_tx_id:
  assumes "relisted s s'"
  shows "resolve_tx_id s' p = resolve_tx_id s p"
  by (simp add: resolve_tx_id_def relisted_content [OF assms])

lemma relisted_resolve_output_ref:
  assumes "relisted s s'"
  shows "resolve_output_ref s' p = resolve_output_ref s p"
  by (simp add: resolve_output_ref_def relisted_content [OF assms])

lemma relisted_last_block_height:
  assumes "relisted s s'"
  shows "find_last_block_height s' = find_last_block_height s"
  unfolding find_last_block_height_def
  by (rule relisted_fold [OF assms csemi_smax acts_block_height_step])

lemma relisted_case_length:
  assumes "relisted s s'"
  shows "(case list_path s' p of None \<Rightarrow> a | Some xs \<Rightarrow> g (length xs))
           = (case list_path s p of None \<Rightarrow> a | Some xs \<Rightarrow> g (length xs))"
  using relisted_length [OF assms, of p]
  by (cases "list_path s p"; cases "list_path s' p") auto

lemma relisted_block_count:
  assumes "relisted s s'"
  shows "query_block_count s' = query_block_count s"
  unfolding query_block_count_def path_array_length_def
  by (rule relisted_case_length [OF assms])

lemma relisted_tx_count:
  assumes "relisted s s'"
  shows "query_tx_count s' = query_tx_count s"
  unfolding query_tx_count_def path_array_length_def
  by (rule relisted_case_length [OF assms])

lemma relisted_address_count:
  assumes "relisted s s'"
  shows "query_address_count s' = query_address_count s"
  unfolding query_address_count_def path_array_length_def
  by (rule relisted_case_length [OF assms])

lemma relisted_input_count_ref:
  assumes "relisted s s'"
  shows "input_count_ref s' = input_count_ref s"
proof (intro ext)
  fix e a
  show "input_count_ref s' e a = input_count_ref s e a"
  proof (cases e)
    case None
    then show ?thesis by (simp add: input_count_ref_def)
  next
    case (Some p)
    show ?thesis
    proof (cases "resolve_tx_id s p")
      case None
      then show ?thesis using Some
        by (simp add: input_count_ref_def relisted_resolve_tx_id [OF assms])
    next
      case (Some tx_id)
      then show ?thesis
        using \<open>e = Some p\<close>
          relisted_case_length [OF assms, where p = "tx_inputs_path tx_id" and a = a
            and g = "\<lambda>n. a + of_nat n"]
        by (simp add: input_count_ref_def path_array_length_def relisted_resolve_tx_id [OF assms]
            cong: option.case_cong)
    qed
  qed
qed

lemma relisted_output_count_ref:
  assumes "relisted s s'"
  shows "output_count_ref s' = output_count_ref s"
proof (intro ext)
  fix e a
  show "output_count_ref s' e a = output_count_ref s e a"
  proof (cases e)
    case None
    then show ?thesis by (simp add: output_count_ref_def)
  next
    case (Some p)
    show ?thesis
    proof (cases "resolve_tx_id s p")
      case None
      then show ?thesis using Some
        by (simp add: output_count_ref_def relisted_resolve_tx_id [OF assms])
    next
      case (Some tx_id)
      then show ?thesis
        using \<open>e = Some p\<close>
          relisted_case_length [OF assms, where p = "tx_outputs_path tx_id" and a = a
            and g = "\<lambda>n. a + of_nat n"]
        by (simp add: output_count_ref_def path_array_length_def relisted_resolve_tx_id [OF assms]
            cong: option.case_cong)
    qed
  qed
qed

lemma relisted_input_count_block:
  assumes "relisted s s'"
  shows "input_count_block s' = input_count_block s"
  unfolding input_count_block_def relisted_input_count_ref [OF assms]
  by (intro ext) (rule relisted_fold [OF assms csemi_add acts_input_count_ref])

lemma relisted_output_count_block:
  assumes "relisted s s'"
  shows "output_count_block s' = output_count_block s"
  unfolding output_count_block_def relisted_output_count_ref [OF assms]
  by (intro ext) (rule relisted_fold [OF assms csemi_add acts_output_count_ref])

lemma relisted_input_count:
  assumes "relisted s s'"
  shows "query_input_count s' = query_input_count s"
  by (simp add: query_input_count_def Let_def relisted_last_block_height [OF assms]
      relisted_input_count_block [OF assms])

lemma relisted_output_count:
  assumes "relisted s s'"
  shows "query_output_count s' = query_output_count s"
  by (simp add: query_output_count_def Let_def relisted_last_block_height [OF assms]
      relisted_output_count_block [OF assms])

lemma relisted_locktime_step:
  assumes "relisted s s'"
  shows "locktime_step s' = locktime_step s"
  by (intro ext) (simp add: locktime_step_def relisted_content [OF assms] cong: option.case_cong)

lemma relisted_version_step:
  assumes "relisted s s'"
  shows "version_step s' = version_step s"
  by (intro ext) (simp add: version_step_def relisted_content [OF assms] cong: option.case_cong)

lemma relisted_fee_max_step:
  assumes "relisted s s'"
  shows "fee_max_step s' = fee_max_step s"
  by (intro ext) (simp add: fee_max_step_def relisted_content [OF assms] cong: option.case_cong)

lemma relisted_fee_sum_step:
  assumes "relisted s s'"
  shows "fee_sum_step s' = fee_sum_step s"
  by (intro ext) (simp add: fee_sum_step_def relisted_content [OF assms] cong: option.case_cong)

lemma relisted_high_value_step:
  assumes "relisted s s'"
  shows "high_value_step s' = high_value_step s"
  by (intro ext) (simp add: high_value_step_def relisted_content [OF assms] cong: option.case_cong)

lemma relisted_multi_input_step:
  assumes "relisted s s'"
  shows "multi_input_step s' = multi_input_step s"
proof (intro ext)
  fix e a
  show "multi_input_step s' e a = multi_input_step s e a"
  proof (cases e)
    case None
    then show ?thesis by (simp add: multi_input_step_def)
  next
    case (Some p)
    show ?thesis
    proof (cases "get_content s p")
      case None
      then show ?thesis using Some
        by (simp add: multi_input_step_def relisted_content [OF assms])
    next
      case (Some tx_json)
      then show ?thesis
        using \<open>e = Some p\<close>
          relisted_case_length [OF assms, where p = "tx_inputs_path (json_get_int tx_json ''tx_id'')" and a = a
            and g = "\<lambda>n. if 10 < n then a + 1 else a"]
        by (simp add: multi_input_step_def Let_def relisted_content [OF assms])
    qed
  qed
qed

lemma relisted_spent_step:
  assumes "relisted s s'"
  shows "spent_step s' = spent_step s"
proof (intro ext)
  fix e a
  show "spent_step s' e a = spent_step s e a"
  proof (cases e)
    case None
    then show ?thesis by (simp add: spent_step_def)
  next
    case (Some p)
    then show ?thesis
      using relisted_case_length [OF assms, where p = p and a = a and g = "\<lambda>n. a + of_nat n"]
      by (simp add: spent_step_def path_array_length_def cong: option.case_cong)
  qed
qed

lemma relisted_tx_locktime_gt_0:
  assumes "relisted s s'"
  shows "query_tx_locktime_gt_0 s' = query_tx_locktime_gt_0 s"
  unfolding query_tx_locktime_gt_0_def relisted_locktime_step [OF assms]
  by (rule relisted_fold [OF assms csemi_add acts_locktime_step])

lemma relisted_tx_version_gt_1:
  assumes "relisted s s'"
  shows "query_tx_version_gt_1 s' = query_tx_version_gt_1 s"
  unfolding query_tx_version_gt_1_def relisted_version_step [OF assms]
  by (rule relisted_fold [OF assms csemi_add acts_version_step])

lemma relisted_calculate_fee:
  assumes "relisted s s'"
  shows "query_calculate_fee s' = query_calculate_fee s"
  unfolding query_calculate_fee_def relisted_fee_max_step [OF assms]
  by (rule relisted_fold [OF assms csemi_smax acts_fee_max_step])

lemma relisted_total_fees:
  assumes "relisted s s'"
  shows "query_total_fees s' = query_total_fees s"
  unfolding query_total_fees_def relisted_fee_sum_step [OF assms]
  by (rule relisted_fold [OF assms csemi_add acts_fee_sum_step])

lemma relisted_high_value_tx:
  assumes "relisted s s'"
  shows "query_high_value_tx s' = query_high_value_tx s"
  unfolding query_high_value_tx_def relisted_high_value_step [OF assms]
  by (rule relisted_fold [OF assms csemi_add acts_high_value_step])

lemma relisted_multi_input_tx:
  assumes "relisted s s'"
  shows "query_multi_input_tx s' = query_multi_input_tx s"
  unfolding query_multi_input_tx_def relisted_multi_input_step [OF assms]
  by (rule relisted_fold [OF assms csemi_add acts_multi_input_step])

lemma relisted_spent_outputs:
  assumes "relisted s s'"
  shows "query_spent_outputs s' = query_spent_outputs s"
  unfolding query_spent_outputs_def relisted_spent_step [OF assms]
  by (rule relisted_fold [OF assms csemi_add acts_spent_step])

lemma relisted_max_output_out:
  assumes "relisted s s'"
  shows "max_output_out s' = max_output_out s"
  by (intro ext)
    (simp add: max_output_out_def relisted_content [OF assms] relisted_resolve_output_ref [OF assms]
      cong: option.case_cong prod.case_cong)

lemma relisted_total_output_out:
  assumes "relisted s s'"
  shows "total_output_out s' = total_output_out s"
  by (intro ext)
    (simp add: total_output_out_def relisted_content [OF assms] relisted_resolve_output_ref [OF assms]
      cong: option.case_cong prod.case_cong)

lemma relisted_max_output_ref:
  assumes "relisted s s'"
  shows "max_output_ref s' = max_output_ref s"
proof (intro ext)
  fix e a
  show "max_output_ref s' e a = max_output_ref s e a"
    unfolding max_output_ref_def relisted_max_output_out [OF assms]
      relisted_resolve_tx_id [OF assms]
    by (simp add: relisted_fold [OF assms csemi_smax acts_max_output_out]
        split: option.splits)
qed

lemma relisted_total_output_ref:
  assumes "relisted s s'"
  shows "total_output_ref s' = total_output_ref s"
proof (intro ext)
  fix e a
  show "total_output_ref s' e a = total_output_ref s e a"
    unfolding total_output_ref_def relisted_total_output_out [OF assms]
      relisted_resolve_tx_id [OF assms]
    by (simp add: relisted_fold [OF assms csemi_add acts_total_output_out]
        split: option.splits)
qed

lemma relisted_max_output_block:
  assumes "relisted s s'"
  shows "max_output_block s' = max_output_block s"
  unfolding max_output_block_def relisted_max_output_ref [OF assms]
  by (intro ext) (rule relisted_fold [OF assms csemi_smax acts_max_output_ref])

lemma relisted_total_output_block:
  assumes "relisted s s'"
  shows "total_output_block s' = total_output_block s"
  unfolding total_output_block_def relisted_total_output_ref [OF assms]
  by (intro ext) (rule relisted_fold [OF assms csemi_add acts_total_output_ref])

lemma relisted_max_output_value:
  assumes "relisted s s'"
  shows "query_max_output_value s' = query_max_output_value s"
  by (simp add: query_max_output_value_def Let_def relisted_last_block_height [OF assms]
      relisted_max_output_block [OF assms])

lemma relisted_total_output_value:
  assumes "relisted s s'"
  shows "query_total_output_value s' = query_total_output_value s"
  by (simp add: query_total_output_value_def Let_def relisted_last_block_height [OF assms]
      relisted_total_output_block [OF assms])

lemma relisted_avg_tx_per_block:
  assumes "relisted s s'"
  shows "query_avg_tx_per_block s' = query_avg_tx_per_block s"
  by (simp add: query_avg_tx_per_block_def Let_def relisted_block_count [OF assms]
      relisted_tx_count [OF assms])

lemma relisted_max_tx_block:
  assumes "relisted s s'"
  shows "max_tx_block s' = max_tx_block s"
proof (intro ext)
  fix h a
  show "max_tx_block s' h a = max_tx_block s h a"
    using relisted_case_length [OF assms, where p = "block_txs_path h" and a = a
            and g = "\<lambda>n. if a <s of_nat n then of_nat n else a"]
    by (simp add: max_tx_block_def path_array_length_def Let_def cong: option.case_cong)
qed

lemma relisted_max_tx_per_block:
  assumes "relisted s s'"
  shows "query_max_tx_per_block s' = query_max_tx_per_block s"
  by (simp add: query_max_tx_per_block_def Let_def relisted_last_block_height [OF assms]
      relisted_max_tx_block [OF assms])

lemma relisted_unspent_outputs:
  assumes "relisted s s'"
  shows "query_unspent_outputs s' = query_unspent_outputs s"
  by (simp add: query_unspent_outputs_def Let_def relisted_output_count [OF assms]
      relisted_spent_outputs [OF assms] cong: option.case_cong)

text \<open>
  C8: when two stores hold the same contents and every listing of the one is a
  permutation of the same listing of the other, every metric of the catalog gives
  the same result on both (and fails to return on both or on neither).
\<close>

theorem catalog_order_independent:
  assumes "relisted s s'"
  shows "\<forall>b\<in>set benchmarks. snd b s' = snd b s"
  by (simp add: benchmarks_def
      relisted_block_count [OF assms] relisted_tx_count [OF assms]
      relisted_input_count [OF assms] relisted_output_count [OF assms]
      relisted_address_count [OF assms] relisted_tx_locktime_gt_0 [OF assms]
      relisted_max_output_value [OF assms] relisted_calculate_fee [OF assms]
      relisted_total_output_value [OF assms] relisted_total_fees [OF assms]
      relisted_tx_version_gt_1 [OF assms] relisted_avg_tx_per_block [OF assms]
      relisted_max_tx_per_block [OF assms] relisted_spent_outputs [OF assms]
      relisted_unspent_outputs [OF assms] relisted_high_value_tx [OF assms]
      relisted_multi_input_tx [OF assms])

theorem catalog_order_independent_witness:
  "relisted scenario_store (rev_store scenario_store) \<and>
   children (rev_store scenario_store) ''tx'' = Some [Some ''tx/2'', Some ''tx/1'', Some ''tx/0''] \<and>
   children scenario_store ''tx'' = Some [Some ''tx/0'', Some ''tx/1'', Some ''tx/2''] \<and>
   map (\<lambda>b. snd b (rev_store scenario_store)) benchmarks
     = map (\<lambda>b. snd b scenario_store) benchmarks"
proof -
  have r: "relisted scenario_store (rev_store scenario_store)" by (rule relisted_rev_store)
  have a: "children (rev_store scenario_store) ''tx''
             = Some [Some ''tx/2'', Some ''tx/1'', Some ''tx/0'']"
    by (simp add: rev_store_def scenario_store_def)
  have b: "children scenario_store ''tx'' = Some [Some ''tx/0'', Some ''tx/1'', Some ''tx/2'']"
    by (simp add: scenario_store_def)
  from catalog_order_independent [OF r]
  have "map (\<lambda>b. snd b (rev_store scenario_store)) benchmarks
          = map (\<lambda>b. snd b scenario_store) benchmarks"
    by (simp only: map_eq_conv)
  with r a b show ?thesis by blast
qed

section \<open>Running maxima\<close>

lemma fold_value_steps:
  assumes "\<And>e a. step e a = (case val e of None \<Rightarrow> a | Some v \<Rightarrow> op a v)"
  shows "fold step xs a = fold (\<lambda>v a. op a v) (List.map_filter val xs) a"
proof (induction xs arbitrary: a)
  case Nil
  then show ?case by simp
next
  case (Cons x xs)
  then show ?case
    by (cases "val x") (simp_all add: assms)
qed

lemma sint_fold_smax:
  "sint (fold (\<lambda>v a. smax a v) vs a) = Max (insert (sint a) (sint ` set vs))"
proof (induction vs arbitrary: a)
  case Nil
  then show ?case by simp
next
  case (Cons v vs)
  have "Max (insert (max (sint a) (sint v)) (sint ` set vs))
          = Max (insert (sint a) (insert (sint v) (sint ` set vs)))"
    by (cases "vs = []") (simp_all add: max.assoc)
  then show ?case by (simp add: Cons sint_smax)
qed

section \<open>The last block height\<close>

lemma block_height_step_suffix:
  "block_height_step e a = (case block_suffix e of None \<Rightarrow> a | Some v \<Rightarrow> smax a v)"
  by (simp add: block_height_step_def block_suffix_def smax_def Let_def split: option.splits)

lemma find_last_block_height_fold:
  "find_last_block_height s = fold (\<lambda>v a. smax a v) (block_heights s) (- 1)"
proof (cases "list_path s ''block''")
  case None
  then show ?thesis by (simp add: find_last_block_height_def block_heights_def)
next
  case (Some blocks)
  then show ?thesis
    using fold_value_steps [where step = block_height_step and val = block_suffix
        and op = smax and xs = blocks and a = "- 1", OF block_height_step_suffix]
    by (simp add: find_last_block_height_def block_heights_def)
qed

lemma strrchr_c_None_iff: "strrchr_c xs c = None \<longleftrightarrow> c \<notin> set xs"
  by (induction xs) (auto split: option.splits)

lemma strrchr_c_last:
  assumes "c \<notin> set seg"
  shows "strrchr_c (dir @ c # seg) c = Some (c # seg)"
proof (induction dir)
  case Nil
  then show ?case using assms by (simp add: strrchr_c_None_iff [THEN iffD2])
next
  case (Cons d dir)
  then show ?case by simp
qed

lemma atoi_c_no_number:
  assumes "seg = [] \<or> (\<not> isdigit_c (hd seg) \<and> \<not> isspace_c (hd seg) \<and>
             hd seg \<noteq> CHR ''-'' \<and> hd seg \<noteq> CHR ''+'')"
  shows "atoi_c seg = 0"
proof -
  have "strtoll_c ([] @ [] @ seg) = word_of_int (clamp_ll (sign_factor [] * decimal []))"
    by (rule strtoll_c_parse) (use assms in auto)
  then show ?thesis
    by (simp add: atoi_c_def sign_factor_def decimal_def clamp_ll_def)
qed

text \<open>
  C1: \<open>find_last_block_height\<close> returns the maximum of \<open>-1\<close> and the integers read
  after the last \<open>/\<close> of the entries of the \<open>block\<close> listing; it returns \<open>-1\<close> when
  the listing is absent or empty. An entry whose text after the last \<open>/\<close> does not
  start a number counts as height 0.
\<close>

theorem last_block_height_max:
  "sint (find_last_block_height s) = Max (insert (- 1) (sint ` set (block_heights s))) \<and>
   (list_path s ''block'' = None \<or> list_path s ''block'' = Some [] \<longrightarrow>
      find_last_block_height s = - 1) \<and>
   (\<forall>dir seg.
      CHR ''/'' \<notin> set seg \<and>
      (seg = [] \<or> (\<not> isdigit_c (hd seg) \<and> \<not> isspace_c (hd seg) \<and>
         hd seg \<noteq> CHR ''-'' \<and> hd seg \<noteq> CHR ''+''))
      \<longrightarrow> block_suffix (Some (dir @ ''/'' @ seg)) = Some 0)"
proof (intro conjI allI impI)
  show "sint (find_last_block_height s) = Max (insert (- 1) (sint ` set (block_heights s)))"
    by (simp add: find_last_block_height_fold sint_fold_smax)
next
  assume "list_path s ''block'' = None \<or> list_path s ''block'' = Some []"
  then show "find_last_block_height s = - 1"
    by (auto simp: find_last_block_height_def)
next
  fix dir seg
  assume h: "CHR ''/'' \<notin> set seg \<and>
      (seg = [] \<or> (\<not> isdigit_c (hd seg) \<and> \<not> isspace_c (hd seg) \<and>
         hd seg \<noteq> CHR ''-'' \<and> hd seg \<noteq> CHR ''+''))"
  then have "strrchr_c (dir @ CHR ''/'' # seg) (CHR ''/'') = Some (CHR ''/'' # seg)"
    by (intro strrchr_c_last) simp
  moreover have "atoi_c seg = 0" using h by (intro atoi_c_no_number) simp
  ultimately show "block_suffix (Some (dir @ ''/'' @ seg)) = Some 0"
    by (simp add: block_suffix_def)
qed

theorem last_block_height_max_witness:
  "find_last_block_height scenario_store = 1 \<and>
   block_heights scenario_store = [0, 1] \<and>
   list_path wide_id_store ''block'' = None \<and>
   find_last_block_height wide_id_store = - 1 \<and>
   block_suffix (Some (''block'' @ ''/'' @ ''abc'')) = Some 0 \<and>
   block_heights odd_block_store = [0, - 5] \<and>
   find_last_block_height odd_block_store = 0"
proof -
  have a: "block_heights scenario_store = [0, 1]" by code_simp
  have b: "list_path wide_id_store ''block'' = None" by code_simp
  have c: "block_heights odd_block_store = [0, - 5]" by code_simp
  have d: "CHR ''/'' \<notin> set ''abc'' \<and>
      (''abc'' = [] \<or> (\<not> isdigit_c (hd ''abc'') \<and> \<not> isspace_c (hd ''abc'') \<and>
         hd ''abc'' \<noteq> CHR ''-'' \<and> hd ''abc'' \<noteq> CHR ''+''))"
    by (simp add: isdigit_c_def isspace_c_def)
  have s1: "sint (find_last_block_height scenario_store) = 1"
    using last_block_height_max [of scenario_store] by (simp add: a)
  have s2: "sint (find_last_block_height odd_block_store) = 0"
    using last_block_height_max [of odd_block_store] by (simp add: c)
  have e1: "find_last_block_height scenario_store = 1"
    by (rule sint_inj) (simp add: s1)
  have e2: "find_last_block_height odd_block_store = 0"
    by (rule sint_inj) (simp add: s2)
  have e3: "find_last_block_height wide_id_store = - 1"
    using last_block_height_max [of wide_id_store] b by blast
  have e4: "block_suffix (Some (''block'' @ ''/'' @ ''abc'')) = Some 0"
    using last_block_height_max [of scenario_store, THEN conjunct2, THEN conjunct2, rule_format, OF d] .
  show ?thesis using a b c e1 e2 e3 e4 by blast
qed

text \<open>
  The only block of this store has the suffix \<open>-5\<close>; the largest suffix is \<open>-5\<close>, the
  height returned is \<open>-1\<close>.
\<close>

theorem last_block_height_negative_suffix:
  "list_path negative_height_store ''block'' = Some [Some ''block/-5''] \<and>
   block_heights negative_height_store = [- 5] \<and>
   find_last_block_height negative_height_store = - 1"
  by code_simp


section \<open>The largest fee\<close>

lemma fee_max_step_fee:
  "fee_max_step s e a = (case fee_of s e of None \<Rightarrow> a | Some v \<Rightarrow> smax a v)"
  by (simp add: fee_max_step_def fee_of_def smax_def Let_def split: option.splits)

lemma query_calculate_fee_fold:
  "query_calculate_fee s = fold (\<lambda>v a. smax a v) (tx_fees s) 0"
proof (cases "list_path s ''tx''")
  case None
  then show ?thesis by (simp add: query_calculate_fee_def tx_fees_def)
next
  case (Some txs)
  then show ?thesis
    using fold_value_steps [where step = "fee_max_step s" and val = "fee_of s"
        and op = smax and xs = txs and a = 0, OF fee_max_step_fee]
    by (simp add: query_calculate_fee_def tx_fees_def)
qed

lemma sint_calculate_fee:
  "sint (query_calculate_fee s) = Max (insert 0 (sint ` set (tx_fees s)))"
  by (simp add: query_calculate_fee_fold sint_fold_smax)

text \<open>
  C6: \<open>query_calculate_fee\<close> returns the maximum of 0 and the decoded fees of the
  transactions of the \<open>tx\<close> listing that have contents: the largest fee when some
  fee is not negative, and 0 when there is no transaction.
\<close>

theorem calculate_fee_max:
  "sint (query_calculate_fee s) = Max (insert 0 (sint ` set (tx_fees s))) \<and>
   ((\<exists>f\<in>set (tx_fees s). 0 \<le>s f) \<longrightarrow>
      sint (query_calculate_fee s) = Max (sint ` set (tx_fees s))) \<and>
   (list_path s ''tx'' = None \<or> list_path s ''tx'' = Some [] \<longrightarrow> query_calculate_fee s = 0)"
proof (intro conjI impI)
  show "sint (query_calculate_fee s) = Max (insert 0 (sint ` set (tx_fees s)))"
    by (rule sint_calculate_fee)
next
  assume "\<exists>f\<in>set (tx_fees s). 0 \<le>s f"
  then obtain f where f: "f \<in> set (tx_fees s)" "0 \<le> sint f"
    by (auto simp: word_sle_eq)
  have fin: "finite (sint ` set (tx_fees s))" and ne: "sint ` set (tx_fees s) \<noteq> {}"
    using f by auto
  have "sint f \<le> Max (sint ` set (tx_fees s))" using f fin by (intro Max_ge) auto
  then have "0 \<le> Max (sint ` set (tx_fees s))" using f by linarith
  then show "sint (query_calculate_fee s) = Max (sint ` set (tx_fees s))"
    using fin ne by (simp add: sint_calculate_fee max_def)
next
  assume "list_path s ''tx'' = None \<or> list_path s ''tx'' = Some []"
  then show "query_calculate_fee s = 0" by (auto simp: query_calculate_fee_def)
qed

theorem calculate_fee_max_witness:
  "tx_fees scenario_store = [100, 2000000000, 50] \<and>
   sint (query_calculate_fee scenario_store) = 2000000000 \<and>
   list_path wide_id_store ''tx'' = None \<and> query_calculate_fee wide_id_store = 0"
proof -
  have a: "tx_fees scenario_store = [100, 2000000000, 50]" by code_simp
  have b: "list_path wide_id_store ''tx'' = None" by code_simp
  have c: "\<exists>f\<in>set (tx_fees scenario_store). 0 \<le>s f" by (simp add: a word_sle_eq)
  have "sint (query_calculate_fee scenario_store) = Max (sint ` set (tx_fees scenario_store))"
    using calculate_fee_max [of scenario_store] c by blast
  then have d: "sint (query_calculate_fee scenario_store) = 2000000000" by (simp add: a)
  have e: "query_calculate_fee wide_id_store = 0"
    using calculate_fee_max [of wide_id_store] b by blast
  show ?thesis using a b d e by blast
qed

text \<open>
  The only transaction of this store has the fee \<open>-5\<close>; the largest fee is \<open>-5\<close>, the
  fee returned is 0.
\<close>

theorem calculate_fee_negative_fees:
  "list_path negative_fee_store ''tx'' = Some [Some ''tx/0''] \<and>
   tx_fees negative_fee_store = [- 5] \<and>
   query_calculate_fee negative_fee_store = 0"
  by code_simp

section \<open>Transactions with more than ten inputs\<close>

lemma fold_count_steps:
  fixes a :: "64 word"
  assumes "\<And>e a. step e a = (if P e then a + 1 else a)"
  shows "fold step xs a = a + of_nat (length (filter P xs))"
  by (induction xs arbitrary: a) (simp_all add: assms)

lemma length_show_nat:
  assumes "n < 10 ^ k" and "0 < k"
  shows "length (show_nat n) \<le> k"
  using assms
proof (induction n arbitrary: k rule: show_nat.induct)
  case (1 n)
  show ?case
  proof (cases "n < 10")
    case True
    then show ?thesis using "1.prems" by (subst show_nat.simps) simp
  next
    case False
    then obtain j where k: "k = Suc j" using "1.prems" by (cases k) auto
    have "j \<noteq> 0" using False "1.prems" k by (cases j) auto
    moreover have "n div 10 < 10 ^ j" using "1.prems" k by (simp add: less_mult_imp_div_less)
    ultimately have "length (show_nat (n div 10)) \<le> j"
      using "1.IH" [OF False, of j] by simp
    then show ?thesis using False k by (subst show_nat.simps) simp
  qed
qed

lemma length_show_int32: "length (show_int (sint (t :: 32 word))) \<le> 11"
proof -
  have lo: "- (2 ^ 31) \<le> sint t" and hi: "sint t < 2 ^ 31"
    using sint_ge [of t] sint_lt [of t] by simp_all
  have "nat \<bar>sint t\<bar> < 10 ^ 10" using lo hi by simp
  then have "length (show_nat (nat \<bar>sint t\<bar>)) \<le> 10" by (rule length_show_nat) simp
  then show ?thesis by (auto simp: show_int_def abs_if split: if_splits)
qed

lemma tx_inputs_path_plain: "tx_inputs_path t = ''index/tx_inputs/'' @ show_int (sint t)"
  using length_show_int32 [of t] by (simp add: tx_inputs_path_def snprintf_256_short)

lemma tx_inputs_path_decoded:
  "tx_inputs_path (json_get_int tx_json ''tx_id'')
     = ''index/tx_inputs/'' @ show_int (signed_take_bit 31 (sint (json_get_int64 tx_json ''tx_id'')))"
  by (simp only: tx_inputs_path_plain json_get_int_def ucast_64_32_sint)

lemma multi_input_step_count:
  "multi_input_step s e a = (if has_many_inputs s e then a + 1 else a)"
  by (simp add: multi_input_step_def has_many_inputs_def Let_def tx_inputs_path_decoded
      split: option.splits)

lemma fits_int_same_inputs:
  assumes "tx_id_fits_int s e"
  shows "has_many_inputs s e = claimed_many_inputs s e"
  using assms
  by (auto simp: tx_id_fits_int_def has_many_inputs_def claimed_many_inputs_def
      signed_take_bit_int_eq_self split: option.splits)

lemma query_multi_input_tx_filter:
  "query_multi_input_tx s = of_nat (length (filter (has_many_inputs s) (tx_listing s)))"
proof (cases "list_path s ''tx''")
  case None
  then show ?thesis by (simp add: query_multi_input_tx_def tx_listing_def)
next
  case (Some txs)
  then show ?thesis
    using fold_count_steps [where step = "multi_input_step s" and P = "has_many_inputs s"
        and xs = txs and a = 0, OF multi_input_step_count]
    by (simp add: query_multi_input_tx_def tx_listing_def)
qed

text \<open>
  C5: \<open>query_multi_input_tx\<close> is the number of entries of the \<open>tx\<close> listing that are
  transactions with contents for which \<open>index/tx_inputs/{tx_id}\<close> lists strictly
  more than ten entries, where \<open>tx_id\<close> is the decoded identifier reduced to a
  signed 32-bit integer. When every decoded identifier lies between \<open>-2^31\<close> and
  \<open>2^31 - 1\<close> this is the number of transactions whose decoded \<open>tx_id\<close> itself has
  more than ten entries.
\<close>

theorem multi_input_tx_counts:
  "query_multi_input_tx s = of_nat (length (filter (has_many_inputs s) (tx_listing s))) \<and>
   ((\<forall>e\<in>set (tx_listing s). tx_id_fits_int s e) \<longrightarrow>
      query_multi_input_tx s = of_nat (length (filter (claimed_many_inputs s) (tx_listing s))))"
proof (intro conjI impI)
  show "query_multi_input_tx s = of_nat (length (filter (has_many_inputs s) (tx_listing s)))"
    by (rule query_multi_input_tx_filter)
next
  assume "\<forall>e\<in>set (tx_listing s). tx_id_fits_int s e"
  then have "filter (has_many_inputs s) (tx_listing s)
               = filter (claimed_many_inputs s) (tx_listing s)"
    by (intro filter_cong refl) (simp add: fits_int_same_inputs)
  then show "query_multi_input_tx s
               = of_nat (length (filter (claimed_many_inputs s) (tx_listing s)))"
    by (simp add: query_multi_input_tx_filter)
qed

theorem multi_input_tx_counts_witness:
  "tx_listing scenario_store = [Some ''tx/0'', Some ''tx/1'', Some ''tx/2''] \<and>
   tx_id_fits_int scenario_store (Some ''tx/0'') \<and>
   tx_id_fits_int scenario_store (Some ''tx/1'') \<and>
   tx_id_fits_int scenario_store (Some ''tx/2'') \<and>
   filter (claimed_many_inputs scenario_store) (tx_listing scenario_store) = [Some ''tx/1''] \<and>
   length (the (list_path scenario_store ''index/tx_inputs/1'')) = 11 \<and>
   query_multi_input_tx scenario_store = 1 \<and>
   tx_listing ten_inputs_store = [Some ''tx/4''] \<and>
   tx_id_fits_int ten_inputs_store (Some ''tx/4'') \<and>
   length (the (list_path ten_inputs_store ''index/tx_inputs/4'')) = 10 \<and>
   filter (claimed_many_inputs ten_inputs_store) (tx_listing ten_inputs_store) = [] \<and>
   query_multi_input_tx ten_inputs_store = 0"
proof -
  have l1: "tx_listing scenario_store = [Some ''tx/0'', Some ''tx/1'', Some ''tx/2'']"
    by code_simp
  have i1: "tx_id_fits_int scenario_store (Some ''tx/0'')"
    "tx_id_fits_int scenario_store (Some ''tx/1'')"
    "tx_id_fits_int scenario_store (Some ''tx/2'')"
    by code_simp+
  have f1: "filter (claimed_many_inputs scenario_store) (tx_listing scenario_store)
              = [Some ''tx/1'']"
    by code_simp
  have n1: "length (the (list_path scenario_store ''index/tx_inputs/1'')) = 11" by code_simp
  have l4: "tx_listing ten_inputs_store = [Some ''tx/4'']" by code_simp
  have i4: "tx_id_fits_int ten_inputs_store (Some ''tx/4'')" by code_simp
  have f4: "filter (claimed_many_inputs ten_inputs_store) (tx_listing ten_inputs_store) = []"
    by code_simp
  have n4: "length (the (list_path ten_inputs_store ''index/tx_inputs/4'')) = 10" by code_simp
  have a1: "\<forall>e\<in>set (tx_listing scenario_store). tx_id_fits_int scenario_store e"
    using i1 by (simp add: l1)
  have a4: "\<forall>e\<in>set (tx_listing ten_inputs_store). tx_id_fits_int ten_inputs_store e"
    using i4 by (simp add: l4)
  have q1: "query_multi_input_tx scenario_store = 1"
    using multi_input_tx_counts [of scenario_store, THEN conjunct2, THEN mp, OF a1]
    by (simp add: f1)
  have q4: "query_multi_input_tx ten_inputs_store = 0"
    using multi_input_tx_counts [of ten_inputs_store, THEN conjunct2, THEN mp, OF a4]
    by (simp add: f4)
  show ?thesis using l1 i1 f1 n1 q1 l4 i4 f4 n4 q4 by blast
qed

text \<open>
  The only transaction of this store has the decoded \<open>tx_id\<close> 4294967297 and eleven
  entries under \<open>index/tx_inputs/4294967297\<close>; the query looks under
  \<open>index/tx_inputs/1\<close> and counts nothing.
\<close>

theorem multi_input_tx_wide_id:
  "sint (json_get_int64 ''{\"tx_id\":4294967297,\"fee\":1}'' ''tx_id'') = 4294967297 \<and>
   length (the (list_path wide_tx_store ''index/tx_inputs/4294967297'')) = 11 \<and>
   filter (claimed_many_inputs wide_tx_store) (tx_listing wide_tx_store) = [Some ''tx/9''] \<and>
   query_multi_input_tx wide_tx_store = 0"
proof -
  have a: "sint (json_get_int64 ''{\"tx_id\":4294967297,\"fee\":1}'' ''tx_id'') = 4294967297"
    by code_simp
  have b: "length (the (list_path wide_tx_store ''index/tx_inputs/4294967297'')) = 11"
    by code_simp
  have l: "tx_listing wide_tx_store = [Some ''tx/9'']" by code_simp
  have g: "get_content wide_tx_store ''tx/9'' = Some ''{\"tx_id\":4294967297,\"fee\":1}''"
    by code_simp
  have p: "show_int 4294967297 = ''4294967297''"
    by (simp add: show_int_def show_nat.simps digit_char_def)
  have i: "list_path wide_tx_store ''index/tx_inputs/4294967297''
             = Some (map (\<lambda>i. Some (''index/tx_inputs/4294967297/'' @ show_nat i)) [0..<11])"
    by code_simp
  have "claimed_many_inputs wide_tx_store (Some ''tx/9'')"
    by (simp add: claimed_many_inputs_def g a p i)
  then have c: "filter (claimed_many_inputs wide_tx_store) (tx_listing wide_tx_store)
                  = [Some ''tx/9'']"
    by (simp add: l)
  have d: "query_multi_input_tx wide_tx_store = 0" by code_simp
  show ?thesis using a b c d by blast
qed

section \<open>The largest output value\<close>

lemma fold_concat_steps:
  assumes "\<And>x a. f x a = fold g (F x) a"
  shows "fold f xs a = fold g (concat (map F xs)) a"
  by (induction xs arbitrary: a) (simp_all add: assms)

lemma max_output_out_value:
  "max_output_out s e a = (case output_value_of s e of None \<Rightarrow> a | Some v \<Rightarrow> smax a v)"
  by (simp add: max_output_out_def output_value_of_def smax_def Let_def
      split: option.splits prod.splits)

lemma max_output_ref_values:
  "max_output_ref s e a = fold (\<lambda>v a. smax a v) (ref_output_values s e) a"
proof (cases e)
  case None
  then show ?thesis by (simp add: max_output_ref_def ref_output_values_def)
next
  case (Some p)
  show ?thesis
  proof (cases "resolve_tx_id s p")
    case None
    then show ?thesis using Some by (simp add: max_output_ref_def ref_output_values_def)
  next
    case (Some tx_id)
    show ?thesis
    proof (cases "list_path s (tx_outputs_path tx_id)")
      case None
      then show ?thesis using \<open>e = Some p\<close> \<open>resolve_tx_id s p = Some tx_id\<close>
        by (simp add: max_output_ref_def ref_output_values_def)
    next
      case (Some outputs)
      then show ?thesis using \<open>e = Some p\<close> \<open>resolve_tx_id s p = Some tx_id\<close>
        using fold_value_steps [where step = "max_output_out s" and val = "output_value_of s"
            and op = smax and xs = outputs and a = a, OF max_output_out_value]
        by (simp add: max_output_ref_def ref_output_values_def)
    qed
  qed
qed

lemma max_output_block_values:
  "max_output_block s h a = fold (\<lambda>v a. smax a v) (block_output_values s h) a"
proof (cases "list_path s (block_txs_path h)")
  case None
  then show ?thesis by (simp add: max_output_block_def block_output_values_def)
next
  case (Some tx_refs)
  then show ?thesis
    using fold_concat_steps [where f = "max_output_ref s" and g = "\<lambda>v a. smax a v"
        and F = "ref_output_values s" and xs = tx_refs and a = a, OF max_output_ref_values]
    by (simp add: max_output_block_def block_output_values_def)
qed

lemma sint_INT_MAX: "sint INT_MAX = 2147483647"
  by (simp add: INT_MAX_def)

lemma below_INT_MAX:
  assumes "last_height \<noteq> INT_MAX"
  shows "sint last_height < 2147483647"
proof -
  have "sint last_height \<noteq> sint INT_MAX" using assms sint_inj by blast
  moreover have "sint last_height < 2 ^ 31" using sint_lt [of last_height] by simp
  ultimately show ?thesis by (simp add: sint_INT_MAX)
qed

lemma height_loop_returns:
  assumes "last_height \<noteq> INT_MAX"
  shows "(if last_height <s 0 then Some 0 else for_height body last_height 0 0)
           = Some (fold body (heights_upto last_height) 0)"
proof (cases "last_height <s 0")
  case True
  then have "[0..sint last_height] = []" by (simp add: word_sless_alt)
  then show ?thesis using True by (simp add: heights_upto_def)
next
  case False
  then have "sint (0 :: 32 word) \<le> sint last_height + 1" by (simp add: word_sless_alt)
  from for_height_returns [OF below_INT_MAX [OF assms] this, of body 0]
  show ?thesis using False by (simp add: heights_upto_def)
qed

lemma query_max_output_value_values:
  assumes "find_last_block_height s \<noteq> INT_MAX"
  shows "query_max_output_value s = Some (fold (\<lambda>v a. smax a v) (output_values s) 0)"
proof -
  have "query_max_output_value s
          = Some (fold (max_output_block s) (heights_upto (find_last_block_height s)) 0)"
    using height_loop_returns [OF assms] by (simp add: query_max_output_value_def Let_def)
  also have "fold (max_output_block s) (heights_upto (find_last_block_height s)) 0
          = fold (\<lambda>v a. smax a v) (output_values s) 0"
    unfolding output_values_def
    by (rule fold_concat_steps) (rule max_output_block_values)
  finally show ?thesis .
qed

text \<open>
  Unless the last block height is \<open>INT_MAX\<close>, \<open>query_max_output_value\<close> returns the
  maximum of 0 and the output values that the traversal reaches, which is not
  negative.
\<close>

lemma max_output_value_below_int_max:
  assumes "find_last_block_height s \<noteq> INT_MAX"
  shows "\<exists>v. query_max_output_value s = Some v \<and> 0 \<le>s v \<and>
             sint v = Max (insert 0 (sint ` set (output_values s)))"
proof -
  let ?v = "fold (\<lambda>v a. smax a v) (output_values s) 0"
  have m: "sint ?v = Max (insert 0 (sint ` set (output_values s)))"
    by (simp add: sint_fold_smax)
  have "0 \<le> Max (insert 0 (sint ` set (output_values s)))"
    by (intro Max_ge) auto
  then have "0 \<le>s ?v" using m by (simp add: word_sle_eq)
  then show ?thesis using query_max_output_value_values [OF assms] m by blast
qed

lemma calculate_fee_nonneg: "0 \<le>s query_calculate_fee s"
proof -
  have "0 \<le> Max (insert 0 (sint ` set (tx_fees s)))" by (intro Max_ge) auto
  then show ?thesis by (simp add: word_sle_eq sint_calculate_fee)
qed

text \<open>
  C10: on a store whose last block height is \<open>INT_MAX\<close> the loop over the heights
  of \<open>query_max_output_value\<close> has no exit, and no value is returned.
\<close>

theorem max_output_value_at_int_max:
  "list_path int_max_store ''block'' = Some [Some ''block/2147483647''] \<and>
   find_last_block_height int_max_store = INT_MAX \<and>
   query_max_output_value int_max_store = None"
proof -
  have a: "list_path int_max_store ''block'' = Some [Some ''block/2147483647'']"
    by code_simp
  have b: "find_last_block_height int_max_store = INT_MAX" by code_simp
  have "\<not> INT_MAX <s 0" by (simp add: word_sless_alt sint_INT_MAX)
  then have "query_max_output_value int_max_store = None"
    by (simp add: query_max_output_value_def b for_height_diverges)
  then show ?thesis using a b by blast
qed

section \<open>The output of the benchmark runner\<close>

lemma main_stdout_returns:
  assumes "query_input_count s = Some ic" and "query_output_count s = Some oc"
    and "query_max_output_value s = Some mv" and "query_total_output_value s = Some tv"
    and "query_max_tx_per_block s = Some mt"
  shows "main_stdout s elapsed =
       ([''Query,Time_ms,Result'',
        result_line ''Block count'' (elapsed 0) (query_block_count s),
        result_line ''Tx count'' (elapsed 1) (query_tx_count s),
        result_line ''Input count'' (elapsed 2) ic,
        result_line ''Output count'' (elapsed 3) oc,
        result_line ''Address count'' (elapsed 4) (query_address_count s),
        result_line ''Tx locktime > 0'' (elapsed 5) (query_tx_locktime_gt_0 s),
        result_line ''Max output value'' (elapsed 6) mv,
        result_line ''Calculate fee'' (elapsed 7) (query_calculate_fee s),
        result_line ''Total output value'' (elapsed 8) tv,
        result_line ''Total fees'' (elapsed 9) (query_total_fees s),
        result_line ''Tx version > 1'' (elapsed 10) (query_tx_version_gt_1 s),
        result_line ''Avg tx per block'' (elapsed 11) (query_avg_tx_per_block s),
        result_line ''Max tx per block'' (elapsed 12) mt,
        result_line ''Spent outputs'' (elapsed 13) (query_spent_outputs s),
        result_line ''Unspent outputs'' (elapsed 14) (oc - query_spent_outputs s),
        result_line ''High value tx'' (elapsed 15) (query_high_value_tx s),
        result_line ''Multi-input tx'' (elapsed 16) (query_multi_input_tx s)], Some 0)"
  by (simp add: main_stdout_def benchmarks_def assms query_unspent_outputs_def Let_def
      eval_nat_numeral)

lemma height_queries_return:
  assumes "find_last_block_height s \<noteq> INT_MAX"
  shows "\<exists>ic oc mv tv mt.
           query_input_count s = Some ic \<and> query_output_count s = Some oc \<and>
           query_max_output_value s = Some mv \<and> query_total_output_value s = Some tv \<and>
           query_max_tx_per_block s = Some mt"
  using height_loop_returns [OF assms]
  by (simp add: query_input_count_def query_output_count_def query_max_output_value_def
      query_total_output_value_def query_max_tx_per_block_def Let_def)

text \<open>
  C9: when the last block height is not \<open>INT_MAX\<close>, every query returns, and the
  output is the header line \<open>Query,Time_ms,Result\<close> followed by one line for each of
  the 17 entries of \<open>benchmarks\<close>, in the order of that array: block count,
  transaction count, input count, output count, address count, locktime, largest
  output value, largest fee, total output value, total fees, version, average and
  largest number of transactions per block, spent and unspent outputs, high-value
  and multi-input transactions. Each line holds the name, the elapsed time and the
  result, separated by commas; the program then exits with code 0.
\<close>

theorem main_stdout_lines:
  assumes "find_last_block_height s \<noteq> INT_MAX"
  shows "\<exists>ic oc mv tv mt.
     query_input_count s = Some ic \<and> query_output_count s = Some oc \<and>
     query_max_output_value s = Some mv \<and> query_total_output_value s = Some tv \<and>
     query_max_tx_per_block s = Some mt \<and>
     main_stdout s elapsed =
       ([''Query,Time_ms,Result'',
        result_line ''Block count'' (elapsed 0) (query_block_count s),
        result_line ''Tx count'' (elapsed 1) (query_tx_count s),
        result_line ''Input count'' (elapsed 2) ic,
        result_line ''Output count'' (elapsed 3) oc,
        result_line ''Address count'' (elapsed 4) (query_address_count s),
        result_line ''Tx locktime > 0'' (elapsed 5) (query_tx_locktime_gt_0 s),
        result_line ''Max output value'' (elapsed 6) mv,
        result_line ''Calculate fee'' (elapsed 7) (query_calculate_fee s),
        result_line ''Total output value'' (elapsed 8) tv,
        result_line ''Total fees'' (elapsed 9) (query_total_fees s),
        result_line ''Tx version > 1'' (elapsed 10) (query_tx_version_gt_1 s),
        result_line ''Avg tx per block'' (elapsed 11) (query_avg_tx_per_block s),
        result_line ''Max tx per block'' (elapsed 12) mt,
        result_line ''Spent outputs'' (elapsed 13) (query_spent_outputs s),
        result_line ''Unspent outputs'' (elapsed 14) (oc - query_spent_outputs s),
        result_line ''High value tx'' (elapsed 15) (query_high_value_tx s),
        result_line ''Multi-input tx'' (elapsed 16) (query_multi_input_tx s)], Some 0)"
proof -
  obtain ic oc mv tv mt where r:
    "query_input_count s = Some ic" "query_output_count s = Some oc"
    "query_max_output_value s = Some mv" "query_total_output_value s = Some tv"
    "query_max_tx_per_block s = Some mt"
    using height_queries_return [OF assms] by blast
  from main_stdout_returns [OF r] r show ?thesis by blast
qed

lemma scenario_results:
  "query_input_count scenario_store = Some 11"
  "query_output_count scenario_store = Some 2"
  "query_max_output_value scenario_store = Some 1000"
  "query_total_output_value scenario_store = Some 1500"
  "query_max_tx_per_block scenario_store = Some 2"
    "query_block_count scenario_store = 2"
    "query_tx_count scenario_store = 3"
    "query_address_count scenario_store = 0"
    "query_tx_locktime_gt_0 scenario_store = 1"
    "query_calculate_fee scenario_store = 2000000000"
    "query_total_fees scenario_store = 2000000150"
    "query_tx_version_gt_1 scenario_store = 1"
    "query_avg_tx_per_block scenario_store = 1500"
    "query_spent_outputs scenario_store = 0"
    "query_high_value_tx scenario_store = 1"
    "query_multi_input_tx scenario_store = 1"
  by code_simp+

lemma scenario_lines:
    "result_line ''Block count'' (no_time 0) 2 = ''Block count,0.000,2''"
    "result_line ''Tx count'' (no_time 1) 3 = ''Tx count,0.000,3''"
    "result_line ''Input count'' (no_time 2) 11 = ''Input count,0.000,11''"
    "result_line ''Output count'' (no_time 3) 2 = ''Output count,0.000,2''"
    "result_line ''Address count'' (no_time 4) 0 = ''Address count,0.000,0''"
    "result_line ''Tx locktime > 0'' (no_time 5) 1 = ''Tx locktime > 0,0.000,1''"
    "result_line ''Max output value'' (no_time 6) 1000 = ''Max output value,0.000,1000''"
    "result_line ''Calculate fee'' (no_time 7) 2000000000 = ''Calculate fee,0.000,2000000000''"
    "result_line ''Total output value'' (no_time 8) 1500 = ''Total output value,0.000,1500''"
    "result_line ''Total fees'' (no_time 9) 2000000150 = ''Total fees,0.000,2000000150''"
    "result_line ''Tx version > 1'' (no_time 10) 1 = ''Tx version > 1,0.000,1''"
    "result_line ''Avg tx per block'' (no_time 11) 1500 = ''Avg tx per block,0.000,1500''"
    "result_line ''Max tx per block'' (no_time 12) 2 = ''Max tx per block,0.000,2''"
    "result_line ''Spent outputs'' (no_time 13) 0 = ''Spent outputs,0.000,0''"
    "result_line ''Unspent outputs'' (no_time 14) 2 = ''Unspent outputs,0.000,2''"
    "result_line ''High value tx'' (no_time 15) 1 = ''High value tx,0.000,1''"
    "result_line ''Multi-input tx'' (no_time 16) 1 = ''Multi-input tx,0.000,1''"
  by (simp_all add: result_line_def no_time_def show_int_def show_nat.simps digit_char_def)

lemma scenario_last_height: "find_last_block_height scenario_store \<noteq> INT_MAX"
proof -
  have "find_last_block_height scenario_store = 1" by code_simp
  then show ?thesis by (simp add: INT_MAX_def)
qed

theorem main_stdout_lines_witness:
  "find_last_block_height scenario_store \<noteq> INT_MAX \<and>
   main_stdout scenario_store no_time =
     ([''Query,Time_ms,Result'',
        ''Block count,0.000,2'',
        ''Tx count,0.000,3'',
        ''Input count,0.000,11'',
        ''Output count,0.000,2'',
        ''Address count,0.000,0'',
        ''Tx locktime > 0,0.000,1'',
        ''Max output value,0.000,1000'',
        ''Calculate fee,0.000,2000000000'',
        ''Total output value,0.000,1500'',
        ''Total fees,0.000,2000000150'',
        ''Tx version > 1,0.000,1'',
        ''Avg tx per block,0.000,1500'',
        ''Max tx per block,0.000,2'',
        ''Spent outputs,0.000,0'',
        ''Unspent outputs,0.000,2'',
        ''High value tx,0.000,1'',
        ''Multi-input tx,0.000,1''], Some 0)"
proof -
  obtain ic oc mv tv mt where r:
    "query_input_count scenario_store = Some ic" "query_output_count scenario_store = Some oc"
    "query_max_output_value scenario_store = Some mv"
    "query_total_output_value scenario_store = Some tv"
    "query_max_tx_per_block scenario_store = Some mt"
    and out: "main_stdout scenario_store no_time =
       ([''Query,Time_ms,Result'',
        result_line ''Block count'' (no_time 0) (query_block_count scenario_store),
        result_line ''Tx count'' (no_time 1) (query_tx_count scenario_store),
        result_line ''Input count'' (no_time 2) ic,
        result_line ''Output count'' (no_time 3) oc,
        result_line ''Address count'' (no_time 4) (query_address_count scenario_store),
        result_line ''Tx locktime > 0'' (no_time 5) (query_tx_locktime_gt_0 scenario_store),
        result_line ''Max output value'' (no_time 6) mv,
        result_line ''Calculate fee'' (no_time 7) (query_calculate_fee scenario_store),
        result_line ''Total output value'' (no_time 8) tv,
        result_line ''Total fees'' (no_time 9) (query_total_fees scenario_store),
        result_line ''Tx version > 1'' (no_time 10) (query_tx_version_gt_1 scenario_store),
        result_line ''Avg tx per block'' (no_time 11) (query_avg_tx_per_block scenario_store),
        result_line ''Max tx per block'' (no_time 12) mt,
        result_line ''Spent outputs'' (no_time 13) (query_spent_outputs scenario_store),
        result_line ''Unspent outputs'' (no_time 14) (oc - query_spent_outputs scenario_store),
        result_line ''High value tx'' (no_time 15) (query_high_value_tx scenario_store),
        result_line ''Multi-input tx'' (no_time 16) (query_multi_input_tx scenario_store)], Some 0)"
    using main_stdout_lines [OF scenario_last_height, of no_time] by blast
  have v: "ic = 11" "oc = 2" "mv = 1000" "tv = 1500" "mt = 2"
    using r by (simp_all add: scenario_results)
  have u: "(2 :: 64 word) - 0 = 2" by simp
  show ?thesis
    using scenario_last_height out
    by (simp only: v scenario_results u scenario_lines simp_thms)
qed

text \<open>
  The third line after the header is the line of the input count, where the order
  block count, transaction count, address count, ... has the address count.
\<close>

theorem main_stdout_not_claimed_order:
  "map line_name (tl (fst (main_stdout scenario_store no_time))) \<noteq> claimed_order \<and>
   fst (main_stdout scenario_store no_time) ! 3 = ''Input count,0.000,11'' \<and>
   claimed_order ! 2 = ''Address count''"
proof -
  have u: "(2 :: 64 word) - 0 = 2" by simp
  have out: "main_stdout scenario_store no_time =
     ([''Query,Time_ms,Result'',
        ''Block count,0.000,2'',
        ''Tx count,0.000,3'',
        ''Input count,0.000,11'',
        ''Output count,0.000,2'',
        ''Address count,0.000,0'',
        ''Tx locktime > 0,0.000,1'',
        ''Max output value,0.000,1000'',
        ''Calculate fee,0.000,2000000000'',
        ''Total output value,0.000,1500'',
        ''Total fees,0.000,2000000150'',
        ''Tx version > 1,0.000,1'',
        ''Avg tx per block,0.000,1500'',
        ''Max tx per block,0.000,2'',
        ''Spent outputs,0.000,0'',
        ''Unspent outputs,0.000,2'',
        ''High value tx,0.000,1'',
        ''Multi-input tx,0.000,1''], Some 0)"
    using main_stdout_returns [OF scenario_results(1-5), of no_time]
    by (simp only: scenario_results u scenario_lines simp_thms)
  have a: "fst (main_stdout scenario_store no_time) ! 3 = ''Input count,0.000,11''"
    by (simp add: out)
  have b: "claimed_order ! 2 = ''Address count''" by (simp add: claimed_order_def)
  have "line_name (fst (main_stdout scenario_store no_time) ! 3) = ''Input count''"
    by (simp add: a line_name_def)
  moreover have "map line_name (tl (fst (main_stdout scenario_store no_time))) ! 2
      = line_name (fst (main_stdout scenario_store no_time) ! 3)"
    by (simp add: out)
  ultimately have "map line_name (tl (fst (main_stdout scenario_store no_time))) ! 2
      \<noteq> claimed_order ! 2"
    by (simp add: b)
  then have "map line_name (tl (fst (main_stdout scenario_store no_time))) \<noteq> claimed_order"
    by auto
  then show ?thesis using a b by blast
qed

end
